theory Spec2Isabelle
  imports Main "HOL-Library.Word" "HOL-Library.Char_ord" "HOL-Library.List_Lexorder" "HOL-Library.AList"
begin

section \<open>JavaScript objects and numbers\<close>

text \<open>
  A plain JavaScript object is modelled by its own enumerable properties, in the order of
  \<^verbatim>\<open>Object.entries\<close>. Reading a property \<^verbatim>\<open>obj[key]\<close> of a plain object (an
  object literal or the result of \<^verbatim>\<open>JSON.parse\<close>) looks at the own properties first
  and then at \<^verbatim>\<open>Object.prototype\<close>, so a key that is no own property still reads as
  the inherited member when it names one.
\<close>

type_synonym 'v js_object = "(string \<times> 'v) list"

datatype 'v js_property = Undefined | Own 'v | Inherited string

definition object_prototype_keys :: "string list" where
  "object_prototype_keys =
     [''constructor'', ''__defineGetter__'', ''__defineSetter__'', ''hasOwnProperty'',
      ''__lookupGetter__'', ''__lookupSetter__'', ''isPrototypeOf'', ''propertyIsEnumerable'',
      ''toString'', ''valueOf'', ''__proto__'', ''toLocaleString'']"

definition js_get :: "'v js_object \<Rightarrow> string \<Rightarrow> 'v js_property" where
  "js_get obj k =
     (case map_of obj k of
        Some v \<Rightarrow> Own v
      | None \<Rightarrow> if k \<in> set object_prototype_keys then Inherited k else Undefined)"

text \<open>
  \<^verbatim>\<open>Number(b)\<close> of a non-negative bigint: exact below \<open>2^53\<close>, rounded to the nearest
  double (53 significant bits, ties to even) from there on. Bigints of \<open>2^1024\<close> and more
  convert to \<^verbatim>\<open>Infinity\<close>, which the numbers of this model (naturals) do not hold.
\<close>

fun bit_length :: "nat \<Rightarrow> nat" where
  "bit_length n = (if n = 0 then 0 else Suc (bit_length (n div 2)))"

declare bit_length.simps [simp del]

definition Number_of_bigint :: "nat \<Rightarrow> nat" where
  "Number_of_bigint n =
     (if n < 2 ^ 53 then n
      else let e = bit_length n - 53; q = n div 2 ^ e; r = n mod 2 ^ e; half = 2 ^ (e - 1)
           in (if r < half \<or> (r = half \<and> even q) then q else q + 1) * 2 ^ e)"

section \<open>The replicated document core\<close>

text \<open>
  Modelled from the spec: the Rust core (stamps, registers, vector clocks, documents and
  deltas) is not among the sources, which hold only the declaration file of its
  WebAssembly build. The definitions of this section follow sections 3 and 4 of the
  specification: a stamp is a 64-bit clock and a replica identifier, ordered by the clock
  first and the identifier (lexicographically) second.
\<close>

type_synonym u64 = "64 word"

type_synonym stamp = "u64 \<times> string"

definition stamp_less :: "stamp \<Rightarrow> stamp \<Rightarrow> bool" where
  "stamp_less a b \<longleftrightarrow> fst a < fst b \<or> (fst a = fst b \<and> snd a < snd b)"

record 'v register =
  reg_value :: 'v
  reg_stamp :: stamp
  reg_origin :: string

datatype fault = InvariantViolation

text \<open>
  \<^verbatim>\<open>assign\<close> on a register (\<open>None\<close> when uninitialised): a greater stamp overwrites, a
  smaller one is discarded, an equal one must carry an equal value.
\<close>

definition assign ::
  "'v \<Rightarrow> stamp \<Rightarrow> string \<Rightarrow> 'v register option \<Rightarrow> fault + 'v register" where
  "assign new_value new_stamp new_origin R =
     (case R of
        None \<Rightarrow> Inr \<lparr>reg_value = new_value, reg_stamp = new_stamp, reg_origin = new_origin\<rparr>
      | Some r \<Rightarrow>
          if stamp_less (reg_stamp r) new_stamp then
            Inr \<lparr>reg_value = new_value, reg_stamp = new_stamp, reg_origin = new_origin\<rparr>
          else if stamp_less new_stamp (reg_stamp r) then Inr r
          else if new_value = reg_value r then Inr r
          else Inl InvariantViolation)"

type_synonym vector_clock = "(string \<times> u64) list"

definition vc_get :: "vector_clock \<Rightarrow> string \<Rightarrow> u64" where
  "vc_get vc r = (case map_of vc r of None \<Rightarrow> 0 | Some v \<Rightarrow> v)"

definition observe :: "string \<Rightarrow> u64 \<Rightarrow> vector_clock \<Rightarrow> vector_clock" where
  "observe r v vc = AList.update r (max (vc_get vc r) v) vc"

fun vc_merge :: "vector_clock \<Rightarrow> vector_clock \<Rightarrow> vector_clock" where
  "vc_merge [] vc = vc"
| "vc_merge ((k, v) # other) vc = vc_merge other (observe k v vc)"

record 'v document =
  document_id :: string
  doc_fields :: "(string \<times> 'v register) list"
  vclock :: vector_clock

definition new_document :: "string \<Rightarrow> 'v document" where
  "new_document i = \<lparr>document_id = i, doc_fields = [], vclock = []\<rparr>"

text \<open>
  One write offered to a document: \<^verbatim>\<open>assign\<close> on the register at the path, then
  \<^verbatim>\<open>observe\<close> of the stamp's clock for the stamp's replica.
\<close>

definition write_field ::
  "string \<Rightarrow> 'v \<Rightarrow> stamp \<Rightarrow> string \<Rightarrow> 'v document \<Rightarrow> fault + 'v document" where
  "write_field path v s origin d =
     (case assign v s origin (map_of (doc_fields d) path) of
        Inl f \<Rightarrow> Inl f
      | Inr r \<Rightarrow>
          Inr (d\<lparr>doc_fields := AList.update path r (doc_fields d),
                 vclock := observe (snd s) (fst s) (vclock d)\<rparr>))"

record 'v change =
  ch_path :: string
  ch_value :: 'v
  ch_stamp :: stamp
  ch_origin :: string

record 'v delta =
  delta_document_id :: string
  changes :: "'v change list"

fun apply_changes :: "'v change list \<Rightarrow> 'v document \<Rightarrow> fault + 'v document" where
  "apply_changes [] d = Inr d"
| "apply_changes (c # cs) d =
     (case write_field (ch_path c) (ch_value c) (ch_stamp c) (ch_origin c) d of
        Inl f \<Rightarrow> Inl f
      | Inr d' \<Rightarrow> apply_changes cs d')"

definition apply_delta :: "'v delta \<Rightarrow> 'v document \<Rightarrow> fault + 'v document" where
  "apply_delta dl d = apply_changes (changes dl) d"

text \<open>Deltas applied one after the other, the first of the list first.\<close>

fun apply_deltas :: "'v delta list \<Rightarrow> 'v document \<Rightarrow> fault + 'v document" where
  "apply_deltas [] d = Inr d"
| "apply_deltas (dl # dls) d =
     (case apply_delta dl d of
        Inl f \<Rightarrow> Inl f
      | Inr d' \<Rightarrow> apply_deltas dls d')"

text \<open>
  The writes a document holds and the writes a delta carries, each as path, stamp and
  value; and the discipline of stamps the specification relies on: a stamp is issued
  once, so two writes of one path with the same stamp carry the same value.
\<close>

definition document_writes :: "'v document \<Rightarrow> (string \<times> stamp \<times> 'v) list" where
  "document_writes d = map (\<lambda>(p, r). (p, reg_stamp r, reg_value r)) (doc_fields d)"

definition delta_writes :: "'v delta \<Rightarrow> (string \<times> stamp \<times> 'v) list" where
  "delta_writes dl = map (\<lambda>c. (ch_path c, ch_stamp c, ch_value c)) (changes dl)"

definition stamps_unique :: "(string \<times> stamp \<times> 'v) list \<Rightarrow> bool" where
  "stamps_unique ws \<longleftrightarrow>
     list_all (\<lambda>x. list_all (\<lambda>y. fst x = fst y \<and> fst (snd x) = fst (snd y)
                                    \<longrightarrow> snd (snd x) = snd (snd y)) ws) ws"

text \<open>
  For the proofs about deltas: the writes in sight at a path (the register the document
  holds there and the changes of a list for it), what it means for them to give equal
  stamps equal values, and for a register to be a greatest one among them; the same for
  the clocks of a replica.
\<close>

definition writes_at :: "string \<Rightarrow> 'v document \<Rightarrow> 'v change list \<Rightarrow> (stamp \<times> 'v) set" where
  "writes_at p d cs =
     (case map_of (doc_fields d) p of None \<Rightarrow> {} | Some r \<Rightarrow> {(reg_stamp r, reg_value r)})
     \<union> {(ch_stamp c, ch_value c) | c. c \<in> set cs \<and> ch_path c = p}"

definition step_writes :: "string \<Rightarrow> 'v document \<Rightarrow> 'v change \<Rightarrow> (stamp \<times> 'v) set" where
  "step_writes p d c = writes_at p d [c]"

definition consistent_at :: "(stamp \<times> 'v) set \<Rightarrow> bool" where
  "consistent_at W \<longleftrightarrow> (\<forall>x \<in> W. \<forall>y \<in> W. fst x = fst y \<longrightarrow> snd x = snd y)"

definition top_of :: "(stamp \<times> 'v) set \<Rightarrow> 'v register option \<Rightarrow> bool" where
  "top_of W R \<longleftrightarrow>
     (case R of
        None \<Rightarrow> W = {}
      | Some r \<Rightarrow> (reg_stamp r, reg_value r) \<in> W \<and> (\<forall>x \<in> W. \<not> stamp_less (reg_stamp r) (fst x)))"

definition changes_at :: "string \<Rightarrow> 'v change list \<Rightarrow> (stamp \<times> 'v) set" where
  "changes_at p cs = {(ch_stamp c, ch_value c) | c. c \<in> set cs \<and> ch_path c = p}"

definition clocks_at :: "string \<Rightarrow> vector_clock \<Rightarrow> 'v change list \<Rightarrow> u64 set" where
  "clocks_at r vc cs =
     insert (vc_get vc r) {fst (ch_stamp c) | c. c \<in> set cs \<and> snd (ch_stamp c) = r}"

definition clock_top :: "u64 set \<Rightarrow> u64 \<Rightarrow> bool" where
  "clock_top S m \<longleftrightarrow> m \<in> S \<and> (\<forall>x \<in> S. x \<le> m)"

section \<open>The SDK: SyncDocument and SyncKit\<close>

text \<open>
  The Rust core behind \<^verbatim>\<open>WasmDocument\<close> is not part of the TypeScript sources: only its
  declaration file is. The SDK functions therefore take the core as a parameter: a record
  of the constructor, \<^verbatim>\<open>setField\<close> and \<^verbatim>\<open>toJSON\<close>, and, for \<^verbatim>\<open>delete\<close>, the core's
  \<^verbatim>\<open>deleteField\<close>. An operation that throws returns \<open>None\<close>.
\<close>

record ('w, 'v) wasm_core =
  wasm_new :: "string \<Rightarrow> 'w"
  wasm_setField :: "string \<Rightarrow> 'v \<Rightarrow> nat \<Rightarrow> string \<Rightarrow> 'w \<Rightarrow> 'w option"
  wasm_toJSON :: "'w \<Rightarrow> 'v js_object"

text \<open>
  Modelled from the spec: the core of the specification as a \<^verbatim>\<open>WasmDocument\<close>, for
  the Rust core that is missing. \<^verbatim>\<open>setField\<close> offers the write with the stamp
  \<open>(clock, client_id)\<close>, the bigint clock converted to 64 bits, and throws on a fault;
  \<^verbatim>\<open>toJSON\<close> lists every field with its value.
\<close>

definition lww_core :: "('v document, 'v) wasm_core" where
  "lww_core =
     \<lparr>wasm_new = new_document,
      wasm_setField = (\<lambda>path v c client d.
         case write_field path v (of_nat c, client) client d of
           Inl f \<Rightarrow> None
         | Inr d' \<Rightarrow> Some d'),
      wasm_toJSON = (\<lambda>d. map (\<lambda>(p, r). (p, reg_value r)) (doc_fields d))\<rparr>"

datatype sdk_error =
    DocumentError string
  | SyncKitError string string
  | WasmThrown
  | BigIntSyntaxError

record 'v stored_document =
  sd_id :: string
  sd_data :: "'v js_object"
  sd_version :: "nat js_object"
  sd_updatedAt :: nat

text \<open>The storage adapter, as \<^verbatim>\<open>MemoryStorage\<close> implements it: a map from document id.\<close>

type_synonym 'v storage = "string \<rightharpoonup> 'v stored_document"

text \<open>
  A \<^verbatim>\<open>SyncDocument\<close> object. Field values are JSON values of type \<open>'v\<close>;
  \<^verbatim>\<open>JSON.stringify\<close> at a call of the core and \<^verbatim>\<open>JSON.parse\<close> of what it returns are
  inverse on them, so the model hands the value itself to the core. Subscription callbacks
  are known by a number, and \<open>delivered\<close> logs what each was called with.
\<close>

record ('w, 'v) sync_document =
  doc_id :: string
  clientId :: string
  has_storage :: bool
  wasmDoc :: "'w option"
  subscribers :: "nat list"
  delivered :: "(nat \<times> 'v js_object) list"
  data :: "'v js_object"
  clock :: nat

definition new_SyncDocument :: "string \<Rightarrow> string \<Rightarrow> bool \<Rightarrow> ('w, 'v) sync_document" where
  "new_SyncDocument i c s =
     \<lparr>doc_id = i, clientId = c, has_storage = s, wasmDoc = None, subscribers = [],
      delivered = [], data = [], clock = 0\<rparr>"

definition updateLocalState ::
  "('w, 'v) wasm_core \<Rightarrow> ('w, 'v) sync_document \<Rightarrow> ('w, 'v) sync_document" where
  "updateLocalState K d =
     (case wasmDoc d of None \<Rightarrow> d | Some w \<Rightarrow> d\<lparr>data := wasm_toJSON K w\<rparr>)"

definition notifySubscribers :: "('w, 'v) sync_document \<Rightarrow> ('w, 'v) sync_document" where
  "notifySubscribers d = d\<lparr>delivered := delivered d @ map (\<lambda>s. (s, data d)) (subscribers d)\<rparr>"

definition persist :: "nat \<Rightarrow> ('w, 'v) sync_document \<Rightarrow> 'v storage \<Rightarrow> 'v storage" where
  "persist now d st =
     (if \<not> has_storage d \<or> wasmDoc d = None then st
      else st(doc_id d \<mapsto>
             \<lparr>sd_id = doc_id d, sd_data = data d,
              sd_version = [(clientId d, Number_of_bigint (clock d))],
              sd_updatedAt = now\<rparr>))"

text \<open>
  The loop of \<^verbatim>\<open>loadFromStored\<close>: every stored field is written to the core with the
  clock \<^verbatim>\<open>BigInt(stored.version[this.clientId] || 0)\<close> and this client's id.
\<close>

definition stored_clock :: "nat js_object \<Rightarrow> string \<Rightarrow> sdk_error + nat" where
  "stored_clock version c =
     (case js_get version c of
        Own n \<Rightarrow> Inr n
      | Undefined \<Rightarrow> Inr 0
      | Inherited _ \<Rightarrow> Inl BigIntSyntaxError)"

fun load_fields ::
  "('w, 'v) wasm_core \<Rightarrow> string \<Rightarrow> nat js_object \<Rightarrow> 'v js_object \<Rightarrow> 'w \<Rightarrow> sdk_error + 'w" where
  "load_fields K c version [] w = Inr w"
| "load_fields K c version ((field, v) # es) w =
     (case stored_clock version c of
        Inl e \<Rightarrow> Inl e
      | Inr n \<Rightarrow>
          (case wasm_setField K field v n c w of
             None \<Rightarrow> Inl WasmThrown
           | Some w' \<Rightarrow> load_fields K c version es w'))"

definition loadFromStored ::
  "('w, 'v) wasm_core \<Rightarrow> 'v stored_document \<Rightarrow> ('w, 'v) sync_document
     \<Rightarrow> sdk_error + ('w, 'v) sync_document" where
  "loadFromStored K stored d =
     (case wasmDoc d of
        None \<Rightarrow> Inr d
      | Some w \<Rightarrow>
          (case load_fields K (clientId d) (sd_version stored) (sd_data stored) w of
             Inl e \<Rightarrow> Inl e
           | Inr w' \<Rightarrow>
               Inr (updateLocalState K
                     (d\<lparr>wasmDoc := Some w',
                        clock := foldr max (map snd (sd_version stored)) 0\<rparr>))))"

definition SyncDocument_init ::
  "('w, 'v) wasm_core \<Rightarrow> 'v storage \<Rightarrow> ('w, 'v) sync_document
     \<Rightarrow> sdk_error + ('w, 'v) sync_document" where
  "SyncDocument_init K st d =
     (let d1 = d\<lparr>wasmDoc := Some (wasm_new K (doc_id d))\<rparr>
      in if has_storage d1 then
           (case st (doc_id d1) of
              Some stored \<Rightarrow>
                (case loadFromStored K stored d1 of
                   Inl e \<Rightarrow> Inl e
                 | Inr d2 \<Rightarrow> Inr (updateLocalState K d2))
            | None \<Rightarrow> Inr (updateLocalState K d1))
         else Inr (updateLocalState K d1))"

definition SyncDocument_getField :: "('w, 'v) sync_document \<Rightarrow> string \<Rightarrow> 'v js_property" where
  "SyncDocument_getField d field = js_get (data d) field"


text \<open>
  The loop of \<^verbatim>\<open>update\<close>, over \<^verbatim>\<open>Object.entries(updates)\<close>: the clock is incremented,
  then the field is written to the core with the incremented clock.
\<close>

fun update_loop ::
  "('w, 'v) wasm_core \<Rightarrow> string \<Rightarrow> 'v js_object \<Rightarrow> nat \<Rightarrow> 'w \<Rightarrow> (nat \<times> 'w) option" where
  "update_loop K c [] n w = Some (n, w)"
| "update_loop K c ((field, v) # es) n w =
     (case wasm_setField K field v (n + 1) c w of
        None \<Rightarrow> None
      | Some w' \<Rightarrow> update_loop K c es (n + 1) w')"

definition SyncDocument_update ::
  "('w, 'v) wasm_core \<Rightarrow> nat \<Rightarrow> 'v js_object \<Rightarrow> ('w, 'v) sync_document \<times> 'v storage
     \<Rightarrow> sdk_error + ('w, 'v) sync_document \<times> 'v storage" where
  "SyncDocument_update K now updates ds =
     (case ds of (d, st) \<Rightarrow>
        (case wasmDoc d of
           None \<Rightarrow> Inl (DocumentError ''Document not initialized'')
         | Some w \<Rightarrow>
             (case update_loop K (clientId d) updates (clock d) w of
                None \<Rightarrow> Inl WasmThrown
              | Some (n, w') \<Rightarrow>
                  (let d1 = updateLocalState K (d\<lparr>clock := n, wasmDoc := Some w'\<rparr>)
                   in Inr (notifySubscribers d1, persist now d1 st)))))"


text \<open>
  \<^verbatim>\<open>SyncKit\<close>: the cache \<open>documents\<close>, a JavaScript \<^verbatim>\<open>Map\<close>, lists each cached
  document id with a reference to its \<^verbatim>\<open>SyncDocument\<close> object, an index into the heap
  of the objects created so far; \<open>kit_storage\<close> is the storage adapter the objects share.
  The constructor leaves the kit uninitialised; \<^verbatim>\<open>init()\<close> sets the flag when
  \<^verbatim>\<open>initWASM()\<close> and \<^verbatim>\<open>storage.init()\<close> both resolve (the argument \<open>ok\<close>).
\<close>

record ('w, 'v) synckit =
  kit_clientId :: string
  kit_storage :: "'v storage"
  initialized :: bool
  documents :: "(string \<times> nat) list"
  heap :: "('w, 'v) sync_document list"

definition new_SyncKit :: "string \<Rightarrow> 'v storage \<Rightarrow> ('w, 'v) synckit" where
  "new_SyncKit c st =
     \<lparr>kit_clientId = c, kit_storage = st, initialized = False, documents = [], heap = []\<rparr>"

definition SyncKit_init :: "bool \<Rightarrow> ('w, 'v) synckit \<Rightarrow> sdk_error + ('w, 'v) synckit" where
  "SyncKit_init ok k =
     (if initialized k then Inr k
      else if ok then Inr (k\<lparr>initialized := True\<rparr>)
      else Inl (SyncKitError ''Failed to initialize SyncKit'' ''INIT_ERROR''))"

text \<open>
  \<^verbatim>\<open>document(id)\<close> returns the cached object when the cache has the id; otherwise it
  creates an object, caches it and returns it. It starts \<^verbatim>\<open>doc.init()\<close> without
  awaiting it, so the object it returns is still uninitialised.
\<close>

definition SyncKit_document ::
  "string \<Rightarrow> ('w, 'v) synckit \<Rightarrow> sdk_error + nat \<times> ('w, 'v) synckit" where
  "SyncKit_document i k =
     (if \<not> initialized k then
        Inl (SyncKitError ''SyncKit not initialized. Call init() first.'' ''NOT_INITIALIZED'')
      else
        (case map_of (documents k) i of
           Some r \<Rightarrow> Inr (r, k)
         | None \<Rightarrow>
             (let r = length (heap k)
              in Inr (r, k\<lparr>documents := documents k @ [(i, r)],
                           heap := heap k @ [new_SyncDocument i (kit_clientId k) True]\<rparr>))))"

text \<open>A run of \<^verbatim>\<open>document\<close> calls, one per id of the list; the references in call order.\<close>

fun SyncKit_documents ::
  "string list \<Rightarrow> ('w, 'v) synckit \<Rightarrow> sdk_error + nat list \<times> ('w, 'v) synckit" where
  "SyncKit_documents [] k = Inr ([], k)"
| "SyncKit_documents (i # is) k =
     (case SyncKit_document i k of
        Inl e \<Rightarrow> Inl e
      | Inr (r, k') \<Rightarrow>
          (case SyncKit_documents is k' of
             Inl e \<Rightarrow> Inl e
           | Inr (rs, k'') \<Rightarrow> Inr (r # rs, k'')))"

text \<open>
  \<^verbatim>\<open>dispose\<close> of a document, and the two calls of \<^verbatim>\<open>SyncKit\<close> that take documents
  out of the cache: \<^verbatim>\<open>deleteDocument(id)\<close> disposes the cached object of the id,
  removes the id from the cache and deletes it from the storage; \<^verbatim>\<open>clearAll()\<close>
  disposes every cached object and empties the cache and the storage.
\<close>

definition dispose :: "('w, 'v) sync_document \<Rightarrow> ('w, 'v) sync_document" where
  "dispose d = d\<lparr>subscribers := [], wasmDoc := None\<rparr>"

definition SyncKit_deleteDocument ::
  "string \<Rightarrow> ('w, 'v) synckit \<Rightarrow> sdk_error + ('w, 'v) synckit" where
  "SyncKit_deleteDocument i k =
     (if \<not> initialized k then
        Inl (SyncKitError ''SyncKit not initialized. Call init() first.'' ''NOT_INITIALIZED'')
      else
        (case map_of (documents k) i of
           Some r \<Rightarrow>
             Inr (k\<lparr>heap := (heap k)[r := dispose (heap k ! r)],
                    documents := filter (\<lambda>e. fst e \<noteq> i) (documents k),
                    kit_storage := (kit_storage k)(i := None)\<rparr>)
         | None \<Rightarrow> Inr (k\<lparr>kit_storage := (kit_storage k)(i := None)\<rparr>)))"

definition SyncKit_clearAll :: "('w, 'v) synckit \<Rightarrow> sdk_error + ('w, 'v) synckit" where
  "SyncKit_clearAll k =
     (if \<not> initialized k then
        Inl (SyncKitError ''SyncKit not initialized. Call init() first.'' ''NOT_INITIALIZED'')
      else
        Inr (k\<lparr>heap := foldl (\<lambda>h r. h[r := dispose (h ! r)]) (heap k) (map snd (documents k)),
               documents := [],
               kit_storage := Map.empty\<rparr>))"

text \<open>A history of calls on a kit, in order; it stops at the first call that throws.\<close>

datatype kit_call = Document string | DeleteDocument string | ClearAll

fun SyncKit_call :: "kit_call \<Rightarrow> ('w, 'v) synckit \<Rightarrow> sdk_error + ('w, 'v) synckit" where
  "SyncKit_call (Document i) k =
     (case SyncKit_document i k of Inl e \<Rightarrow> Inl e | Inr (r, k') \<Rightarrow> Inr k')"
| "SyncKit_call (DeleteDocument i) k = SyncKit_deleteDocument i k"
| "SyncKit_call ClearAll k = SyncKit_clearAll k"

fun SyncKit_calls :: "kit_call list \<Rightarrow> ('w, 'v) synckit \<Rightarrow> sdk_error + ('w, 'v) synckit" where
  "SyncKit_calls [] k = Inr k"
| "SyncKit_calls (c # cs) k =
     (case SyncKit_call c k of Inl e \<Rightarrow> Inl e | Inr k' \<Rightarrow> SyncKit_calls cs k')"

text \<open>
  What holds of every kit that was initialised and then used: each cached reference is an
  object of the heap, and that object has the id it is cached under.
\<close>

definition cache_ok :: "('w, 'v) synckit \<Rightarrow> bool" where
  "cache_ok k \<longleftrightarrow>
     initialized k \<and>
     list_all (\<lambda>e. snd e < length (heap k) \<and> doc_id (heap k ! snd e) = fst e) (documents k)"

section \<open>The WebSocket server\<close>

text \<open>
  Modelled from the spec: the \<^verbatim>\<open>Connection\<close> class is not among the sources. Its states
  are those of the connection state machine of the specification (\<^verbatim>\<open>Subscribed\<close> is
  kept by the coordinator's subscriber sets; the server code names only
  \<^verbatim>\<open>ConnectionState.AUTHENTICATED\<close>). The server code assigns \<^verbatim>\<open>connection.state\<close>
  itself, so the state is a plain field, apart from the socket: \<open>ws_open\<close> tells whether
  the socket is open. \<^verbatim>\<open>send\<close> on a socket that is not open drops the message;
  \<^verbatim>\<open>close\<close> closes the socket and sets the state \<^verbatim>\<open>Closed\<close>.
\<close>

datatype connection_state = UNAUTHENTICATED | AUTHENTICATED | CLOSED

record permissions =
  canRead :: "string list"
  canWrite :: "string list"
  isAdmin :: bool

record token_payload =
  userId :: string
  tp_permissions :: permissions

text \<open>
  The messages of the wire protocol that the server reads or writes, without the message
  id and timestamp of a response (\<^verbatim>\<open>createMessageId()\<close>, \<^verbatim>\<open>Date.now()\<close>), which no
  handler reads. \<open>'dl\<close> is the delta payload, \<open>'st\<close> the document state of a sync
  response. A missing optional field is \<open>None\<close>.
\<close>

datatype ('dl, 'st) message =
    AuthMessage "string option" "string option"
  | SyncRequestMessage string string "vector_clock option"
  | DeltaMessage string 'dl vector_clock
  | AuthSuccessMessage string permissions
  | AuthErrorMessage string
  | SyncResponseMessage string string 'st "'dl list"
  | ErrorMessage string "string option"
  | UnknownMessage string

record ('dl, 'st) connection =
  conn_state :: connection_state
  ws_open :: bool
  conn_userId :: "string option"
  tokenPayload :: "token_payload option"
  sent :: "('dl, 'st) message list"

definition new_Connection :: "('dl, 'st) connection" where
  "new_Connection =
     \<lparr>conn_state = UNAUTHENTICATED, ws_open = True, conn_userId = None, tokenPayload = None,
      sent = []\<rparr>"

definition send :: "('dl, 'st) message \<Rightarrow> ('dl, 'st) connection \<Rightarrow> ('dl, 'st) connection" where
  "send m c = (if ws_open c then c\<lparr>sent := sent c @ [m]\<rparr> else c)"

definition sendError ::
  "string \<Rightarrow> string option \<Rightarrow> ('dl, 'st) connection \<Rightarrow> ('dl, 'st) connection" where
  "sendError text details c = send (ErrorMessage text details) c"

definition close_connection :: "('dl, 'st) connection \<Rightarrow> ('dl, 'st) connection" where
  "close_connection c = c\<lparr>conn_state := CLOSED, ws_open := False\<rparr>"

text \<open>
  What the server code calls and the sources do not hold is a parameter: the configured
  connection limit, token verification (\<^verbatim>\<open>verifyToken\<close>, which needs the configured
  secret), the two permission checks of \<^verbatim>\<open>auth/rbac\<close>, and the operations of
  \<^verbatim>\<open>SyncCoordinator\<close> on its state \<open>'c\<close>: the four that the handlers call, where a
  call that throws returns \<open>None\<close>, and \<open>co_unsubscribeAll\<close>, the \<^verbatim>\<open>unsubscribe_all\<close>
  of the specification, by which a connection that has closed leaves every subscriber set.
\<close>

record ('c, 'st) server_env =
  wsMaxConnections :: nat
  verifyToken :: "string \<Rightarrow> token_payload option"
  canReadDocument :: "token_payload \<Rightarrow> string \<Rightarrow> bool"
  canWriteDocument :: "token_payload \<Rightarrow> string \<Rightarrow> bool"
  co_subscribe :: "string \<Rightarrow> string \<Rightarrow> 'c \<Rightarrow> 'c option"
  co_mergeVectorClock :: "string \<Rightarrow> vector_clock \<Rightarrow> 'c \<Rightarrow> 'c option"
  co_getDocumentState :: "string \<Rightarrow> 'c \<Rightarrow> 'st option"
  co_getSubscribers :: "string \<Rightarrow> 'c \<Rightarrow> string list option"
  co_unsubscribeAll :: "string \<Rightarrow> 'c \<Rightarrow> 'c"

text \<open>
  The server: the connection objects by id, the ids the registry holds, the registry's
  links from connection to user, the coordinator, and the counter the connection ids are
  made from. \<^verbatim>\<open>handleAuth\<close> is an \<^verbatim>\<open>async\<close> function that \<^verbatim>\<open>handleMessage\<close> calls
  without awaiting it: at \<^verbatim>\<open>await verifyToken(message.token)\<close> it is suspended, and
  \<open>pending\<close> lists the suspended calls in order, each with its connection and with what
  \<^verbatim>\<open>verifyToken\<close> returned (\<open>None\<close> for \<^verbatim>\<open>null\<close>).
\<close>

record ('c, 'dl, 'st) server =
  connections :: "string \<Rightarrow> ('dl, 'st) connection"
  registered :: "string set"
  userLinks :: "(string \<times> string) list"
  coordinator :: 'c
  connectionCounter :: nat
  pending :: "(string \<times> token_payload option) list"

fun decimal :: "nat \<Rightarrow> string" where
  "decimal n =
     (if n < 10 then [''0123456789'' ! n]
      else decimal (n div 10) @ [''0123456789'' ! (n mod 10)])"

declare decimal.simps [simp del]

text \<open>
  \<^verbatim>\<open>handleConnection\<close>: at the connection limit the socket is closed and nothing is
  registered; otherwise a connection \<^verbatim>\<open>conn-N\<close> is created and added to the registry.
\<close>

definition handleConnection ::
  "('c, 'st) server_env \<Rightarrow> ('c, 'dl, 'st) server \<Rightarrow> ('c, 'dl, 'st) server" where
  "handleConnection E s =
     (if card (registered s) \<ge> wsMaxConnections E then s
      else
        (let n = connectionCounter s + 1; connectionId = ''conn-'' @ decimal n
         in s\<lparr>connectionCounter := n,
              connections := (connections s)(connectionId := new_Connection),
              registered := insert connectionId (registered s)\<rparr>))"

definition truthy :: "string option \<Rightarrow> bool" where
  "truthy x \<longleftrightarrow> (case x of None \<Rightarrow> False | Some t \<Rightarrow> t \<noteq> [])"

definition anonymous_payload :: token_payload where
  "anonymous_payload =
     \<lparr>userId = ''anonymous'',
      tp_permissions = \<lparr>canRead = [], canWrite = [], isAdmin = False\<rparr>\<rparr>"

definition auth_success ::
  "string \<Rightarrow> token_payload \<Rightarrow> string \<Rightarrow> ('c, 'dl, 'st) server \<Rightarrow> ('c, 'dl, 'st) server" where
  "auth_success cid payload uid s =
     (let c = (connections s cid)
                \<lparr>conn_state := AUTHENTICATED, conn_userId := Some uid,
                 tokenPayload := Some payload\<rparr>
      in s\<lparr>connections :=
             (connections s)(cid := send (AuthSuccessMessage uid (tp_permissions payload)) c),
           userLinks := userLinks s @ [(cid, uid)]\<rparr>)"

text \<open>
  Modelled from the spec: what follows \<^verbatim>\<open>connection.close\<close>. The socket is closed and
  the state is \<^verbatim>\<open>Closed\<close>; on the close event the registry drops the connection and
  the coordinator drops it from every subscriber set (\<^verbatim>\<open>unsubscribe_all\<close>, section 4.6
  of the specification; \<^verbatim>\<open>handleDisconnect\<close> leaves both to the registry, in its
  comments). The model does this at the call of \<^verbatim>\<open>close\<close>.
\<close>

definition disconnect ::
  "('c, 'st) server_env \<Rightarrow> string \<Rightarrow> ('c, 'dl, 'st) server \<Rightarrow> ('c, 'dl, 'st) server" where
  "disconnect E cid s =
     s\<lparr>connections := (connections s)(cid := close_connection (connections s cid)),
       registered := registered s - {cid},
       userLinks := filter (\<lambda>l. fst l \<noteq> cid) (userLinks s),
       coordinator := co_unsubscribeAll E cid (coordinator s)\<rparr>"

text \<open>
  \<^verbatim>\<open>handleAuth\<close>, up to its first suspension. With a token (a non-empty string) the
  call evaluates \<^verbatim>\<open>verifyToken(message.token)\<close> and is suspended at the \<^verbatim>\<open>await\<close>;
  nothing else has happened yet. Without a token the function has no \<^verbatim>\<open>await\<close> on its
  way and runs to its end at once: with an API key it sends an error and returns, with
  neither it authenticates the connection as \<open>anonymous\<close>.
\<close>

definition handleAuth ::
  "('c, 'st) server_env \<Rightarrow> string \<Rightarrow> string option \<Rightarrow> string option
     \<Rightarrow> ('c, 'dl, 'st) server \<Rightarrow> ('c, 'dl, 'st) server" where
  "handleAuth E cid token apiKey s =
     (case (if truthy token then token else None) of
        Some t \<Rightarrow> s\<lparr>pending := pending s @ [(cid, verifyToken E t)]\<rparr>
      | None \<Rightarrow>
          if truthy apiKey then
            s\<lparr>connections := (connections s)
                 (cid := sendError ''API key authentication not yet implemented'' None
                           (connections s cid))\<rparr>
          else auth_success cid anonymous_payload ''anonymous'' s)"

text \<open>
  The rest of \<^verbatim>\<open>handleAuth\<close>, when the suspended call is resumed with the result
  \<open>decoded\<close> of the verification. \<^verbatim>\<open>null\<close> throws \<^verbatim>\<open>Invalid token\<close> into the
  \<^verbatim>\<open>catch\<close> block, which sends \<^verbatim>\<open>AUTH_ERROR\<close> and closes the connection; a payload
  authenticates the connection. Neither path looks at the state the connection is in by
  then.
\<close>

definition handleAuth_resume ::
  "('c, 'st) server_env \<Rightarrow> string \<Rightarrow> token_payload option
     \<Rightarrow> ('c, 'dl, 'st) server \<Rightarrow> ('c, 'dl, 'st) server" where
  "handleAuth_resume E cid decoded s =
     (case decoded of
        None \<Rightarrow>
          disconnect E cid
            (s\<lparr>connections := (connections s)
                  (cid := send (AuthErrorMessage ''Authentication failed'')
                            (connections s cid))\<rparr>)
      | Some payload \<Rightarrow> auth_success cid payload (userId payload) s)"

text \<open>
  The two checks that open \<^verbatim>\<open>handleSyncRequest\<close> and \<^verbatim>\<open>handleDelta\<close>: the token
  payload of a connection that is authenticated and has one.
\<close>

definition authenticated_payload :: "('dl, 'st) connection \<Rightarrow> token_payload option" where
  "authenticated_payload c =
     (if conn_state c \<noteq> AUTHENTICATED then None else tokenPayload c)"

definition reply ::
  "string \<Rightarrow> ('dl, 'st) message \<Rightarrow> ('c, 'dl, 'st) server \<Rightarrow> ('c, 'dl, 'st) server" where
  "reply cid m s = s\<lparr>connections := (connections s)(cid := send m (connections s cid))\<rparr>"

definition handleSyncRequest ::
  "('c, 'st) server_env \<Rightarrow> string \<Rightarrow> string \<Rightarrow> string \<Rightarrow> vector_clock option
     \<Rightarrow> ('c, 'dl, 'st) server \<Rightarrow> ('c, 'dl, 'st) server" where
  "handleSyncRequest E cid mid documentId vectorClock s =
     (case authenticated_payload (connections s cid) of
        None \<Rightarrow> reply cid (ErrorMessage ''Not authenticated'' None) s
      | Some payload \<Rightarrow>
          if \<not> canReadDocument E payload documentId then
            reply cid (ErrorMessage ''Permission denied'' (Some documentId)) s
          else
            (case co_subscribe E documentId cid (coordinator s) of
               None \<Rightarrow> reply cid (ErrorMessage ''Sync request failed'' (Some documentId)) s
             | Some c1 \<Rightarrow>
                 (case (case vectorClock of
                          None \<Rightarrow> Some c1
                        | Some vc \<Rightarrow> co_mergeVectorClock E documentId vc c1) of
                    None \<Rightarrow>
                      reply cid (ErrorMessage ''Sync request failed'' (Some documentId))
                        (s\<lparr>coordinator := c1\<rparr>)
                  | Some c2 \<Rightarrow>
                      (case co_getDocumentState E documentId c2 of
                         None \<Rightarrow>
                           reply cid (ErrorMessage ''Sync request failed'' (Some documentId))
                             (s\<lparr>coordinator := c2\<rparr>)
                       | Some state \<Rightarrow>
                           reply cid (SyncResponseMessage mid documentId state [])
                             (s\<lparr>coordinator := c2\<rparr>)))))"

text \<open>
  The loop of \<^verbatim>\<open>broadcast\<close> over the subscribers: the excluded id is skipped, and the
  message is sent to a subscriber that the registry holds and whose state is
  \<^verbatim>\<open>AUTHENTICATED\<close>.
\<close>

fun broadcast_loop ::
  "string list \<Rightarrow> ('dl, 'st) message \<Rightarrow> string option
     \<Rightarrow> ('c, 'dl, 'st) server \<Rightarrow> ('c, 'dl, 'st) server" where
  "broadcast_loop [] m exclude s = s"
| "broadcast_loop (connectionId # rest) m exclude s =
     (if Some connectionId = exclude then broadcast_loop rest m exclude s
      else if connectionId \<in> registered s
              \<and> conn_state (connections s connectionId) = AUTHENTICATED then
        broadcast_loop rest m exclude (reply connectionId m s)
      else broadcast_loop rest m exclude s)"

definition broadcast ::
  "('c, 'st) server_env \<Rightarrow> string \<Rightarrow> ('dl, 'st) message \<Rightarrow> string option
     \<Rightarrow> ('c, 'dl, 'st) server \<Rightarrow> ('c, 'dl, 'st) server option" where
  "broadcast E documentId m exclude s =
     (case co_getSubscribers E documentId (coordinator s) of
        None \<Rightarrow> None
      | Some subs \<Rightarrow> Some (broadcast_loop subs m exclude s))"

definition handleDelta ::
  "('c, 'st) server_env \<Rightarrow> string \<Rightarrow> string \<Rightarrow> 'dl \<Rightarrow> vector_clock
     \<Rightarrow> ('c, 'dl, 'st) server \<Rightarrow> ('c, 'dl, 'st) server" where
  "handleDelta E cid documentId dl vectorClock s =
     (case authenticated_payload (connections s cid) of
        None \<Rightarrow> reply cid (ErrorMessage ''Not authenticated'' None) s
      | Some payload \<Rightarrow>
          if \<not> canWriteDocument E payload documentId then
            reply cid (ErrorMessage ''Permission denied'' (Some documentId)) s
          else
            (case co_mergeVectorClock E documentId vectorClock (coordinator s) of
               None \<Rightarrow>
                 reply cid (ErrorMessage ''Delta application failed'' (Some documentId)) s
             | Some c1 \<Rightarrow>
                 (case broadcast E documentId (DeltaMessage documentId dl vectorClock)
                         (Some cid) (s\<lparr>coordinator := c1\<rparr>) of
                    None \<Rightarrow>
                      reply cid (ErrorMessage ''Delta application failed'' (Some documentId))
                        (s\<lparr>coordinator := c1\<rparr>)
                  | Some s' \<Rightarrow> s')))"

fun handleMessage ::
  "('c, 'st) server_env \<Rightarrow> string \<Rightarrow> ('dl, 'st) message
     \<Rightarrow> ('c, 'dl, 'st) server \<Rightarrow> ('c, 'dl, 'st) server" where
  "handleMessage E cid (AuthMessage token apiKey) s = handleAuth E cid token apiKey s"
| "handleMessage E cid (SyncRequestMessage mid documentId vectorClock) s =
     handleSyncRequest E cid mid documentId vectorClock s"
| "handleMessage E cid (DeltaMessage documentId dl vectorClock) s =
     handleDelta E cid documentId dl vectorClock s"
| "handleMessage E cid _ s = s"

text \<open>
  One turn of the event loop. The message events of the turn, each with the id of its
  connection, are handled in order, every handler running until it returns or is
  suspended; then the suspended calls are resumed, in the order of their suspension.
\<close>

fun dispatch ::
  "('c, 'st) server_env \<Rightarrow> (string \<times> ('dl, 'st) message) list
     \<Rightarrow> ('c, 'dl, 'st) server \<Rightarrow> ('c, 'dl, 'st) server" where
  "dispatch E [] s = s"
| "dispatch E ((cid, m) # ms) s = dispatch E ms (handleMessage E cid m s)"

fun resume_all ::
  "('c, 'st) server_env \<Rightarrow> (string \<times> token_payload option) list
     \<Rightarrow> ('c, 'dl, 'st) server \<Rightarrow> ('c, 'dl, 'st) server" where
  "resume_all E [] s = s"
| "resume_all E ((cid, decoded) # ps) s = resume_all E ps (handleAuth_resume E cid decoded s)"

definition tick ::
  "('c, 'st) server_env \<Rightarrow> (string \<times> ('dl, 'st) message) list
     \<Rightarrow> ('c, 'dl, 'st) server \<Rightarrow> ('c, 'dl, 'st) server" where
  "tick E ms s =
     (let s1 = dispatch E ms s in resume_all E (pending s1) (s1\<lparr>pending := []\<rparr>))"

text \<open>A run of messages that arrive one per turn of the event loop.\<close>

fun on_messages ::
  "('c, 'st) server_env \<Rightarrow> (string \<times> ('dl, 'st) message) list
     \<Rightarrow> ('c, 'dl, 'st) server \<Rightarrow> ('c, 'dl, 'st) server" where
  "on_messages E [] s = s"
| "on_messages E (m # ms) s = on_messages E ms (tick E [m] s)"

text \<open>
  Modelled from the spec: the sync coordinator of section 4.6, with the documents and the
  subscriber sets (in subscription order). \<^verbatim>\<open>getDocumentState\<close> gives the fields of
  the document, \<^verbatim>\<open>mergeVectorClock\<close> merges into the document's clock; a document
  is created on first use. \<^verbatim>\<open>unsubscribe_all\<close> drops the connection from every set.
\<close>

record 'v coordinator_state =
  co_documents :: "(string \<times> 'v document) list"
  co_subscribers :: "(string \<times> string list) list"

definition co_document :: "'v coordinator_state \<Rightarrow> string \<Rightarrow> 'v document" where
  "co_document c i = (case map_of (co_documents c) i of None \<Rightarrow> new_document i | Some d \<Rightarrow> d)"

definition subscribers_of :: "'v coordinator_state \<Rightarrow> string \<Rightarrow> string list" where
  "subscribers_of c i = (case map_of (co_subscribers c) i of None \<Rightarrow> [] | Some cs \<Rightarrow> cs)"

definition spec_coordinator ::
  "nat \<Rightarrow> (string \<Rightarrow> token_payload option)
     \<Rightarrow> ('v coordinator_state, (string \<times> 'v register) list) server_env" where
  "spec_coordinator limit verify =
     \<lparr>wsMaxConnections = limit,
      verifyToken = verify,
      canReadDocument = (\<lambda>p i. isAdmin (tp_permissions p) \<or> i \<in> set (canRead (tp_permissions p))),
      canWriteDocument = (\<lambda>p i. isAdmin (tp_permissions p) \<or> i \<in> set (canWrite (tp_permissions p))),
      co_subscribe = (\<lambda>i conn c.
         Some (c\<lparr>co_documents := AList.update i (co_document c i) (co_documents c),
                 co_subscribers :=
                   AList.update i
                     (if conn \<in> set (subscribers_of c i) then subscribers_of c i
                      else subscribers_of c i @ [conn])
                     (co_subscribers c)\<rparr>)),
      co_mergeVectorClock = (\<lambda>i vc c.
         Some (c\<lparr>co_documents :=
                   AList.update i
                     ((co_document c i)\<lparr>vclock := vc_merge vc (vclock (co_document c i))\<rparr>)
                     (co_documents c)\<rparr>)),
      co_getDocumentState = (\<lambda>i c. Some (doc_fields (co_document c i))),
      co_getSubscribers = (\<lambda>i c. Some (subscribers_of c i)),
      co_unsubscribeAll = (\<lambda>conn c.
         c\<lparr>co_subscribers := map (\<lambda>(i, cs). (i, removeAll conn cs)) (co_subscribers c)\<rparr>)\<rparr>"

section \<open>The PostgreSQL storage adapter: vector clocks\<close>

text \<open>
  The tables \<^verbatim>\<open>documents\<close> and \<^verbatim>\<open>vector_clocks\<close> of the schema, as far as
  \<^verbatim>\<open>mergeVectorClock\<close> touches them: the ids of the stored documents, and the clock
  value of each row, keyed by its primary key \<open>(document_id, client_id)\<close>. A clock value
  is a \<^verbatim>\<open>BIGINT\<close>, an id a \<^verbatim>\<open>VARCHAR(255)\<close>, and \<open>document_id\<close> references
  \<^verbatim>\<open>documents(id)\<close>.
\<close>

record pg_db =
  pg_documents :: "string set"
  vector_clocks :: "string \<times> string \<rightharpoonup> int"

datatype pg_error = QueryError string

definition in_bigint :: "int \<Rightarrow> bool" where
  "in_bigint v \<longleftrightarrow> - (2 ^ 63) \<le> v \<and> v < 2 ^ 63"

text \<open>
  Storing a string in a \<^verbatim>\<open>VARCHAR(255)\<close> column: a longer string is an error, unless
  the characters in excess are all spaces, which are cut off.
\<close>

definition varchar255 :: "string \<Rightarrow> string option" where
  "varchar255 s =
     (if length s \<le> 255 then Some s
      else if list_all (\<lambda>c. c = CHR '' '') (drop 255 s) then Some (take 255 s)
      else None)"

text \<open>
  The statement of the loop,
  \<^verbatim>\<open>INSERT INTO vector_clocks ... ON CONFLICT (document_id, client_id) DO UPDATE SET
  clock_value = GREATEST(vector_clocks.clock_value, $3)\<close>: \<open>None\<close> when it raises.
\<close>

definition upsert_clock :: "string \<Rightarrow> string \<Rightarrow> int \<Rightarrow> pg_db \<Rightarrow> pg_db option" where
  "upsert_clock documentId client clockValue db =
     (if \<not> in_bigint clockValue then None
      else
        (case (varchar255 documentId, varchar255 client) of
           (Some d, Some c) \<Rightarrow>
             (case vector_clocks db (d, c) of
                Some old \<Rightarrow>
                  Some (db\<lparr>vector_clocks := (vector_clocks db)((d, c) \<mapsto> max old clockValue)\<rparr>)
              | None \<Rightarrow>
                  if d \<in> pg_documents db then
                    Some (db\<lparr>vector_clocks := (vector_clocks db)((d, c) \<mapsto> clockValue)\<rparr>)
                  else None)
         | _ \<Rightarrow> None))"

fun merge_loop :: "string \<Rightarrow> int js_object \<Rightarrow> pg_db \<Rightarrow> pg_db option" where
  "merge_loop documentId [] db = Some db"
| "merge_loop documentId ((client, clockValue) # es) db =
     (case upsert_clock documentId client clockValue db of
        None \<Rightarrow> None
      | Some db' \<Rightarrow> merge_loop documentId es db')"

text \<open>
  \<^verbatim>\<open>mergeVectorClock\<close>: the loop runs in a transaction. When a statement raises, the
  transaction is rolled back, which leaves the database as it was, and a
  \<^verbatim>\<open>QueryError\<close> is thrown; otherwise the transaction is committed.
\<close>

definition mergeVectorClock :: "string \<Rightarrow> int js_object \<Rightarrow> pg_db \<Rightarrow> pg_error option \<times> pg_db" where
  "mergeVectorClock documentId incoming db =
     (case merge_loop documentId incoming db of
        None \<Rightarrow> (Some (QueryError (''Failed to merge vector clock for '' @ documentId)), db)
      | Some db' \<Rightarrow> (None, db'))"

section \<open>An example server\<close>

text \<open>
  The server the concrete runs below start from: at most 100 connections, two tokens
  verify, \<open>alice\<close> may read and write document \<open>d\<close>, \<open>bob\<close> may read it; no connection
  yet, and the coordinator of the specification with no document.
\<close>

abbreviation example_verify :: "string \<Rightarrow> token_payload option" where
  "example_verify \<equiv> (\<lambda>t.
     if t = ''alice-token'' then
       Some \<lparr>userId = ''alice'',
             tp_permissions = \<lparr>canRead = [''d''], canWrite = [''d''], isAdmin = False\<rparr>\<rparr>
     else if t = ''bob-token'' then
       Some \<lparr>userId = ''bob'',
             tp_permissions = \<lparr>canRead = [''d''], canWrite = [], isAdmin = False\<rparr>\<rparr>
     else None)"

abbreviation example_env ::
  "(nat coordinator_state, (string \<times> nat register) list) server_env" where
  "example_env \<equiv> spec_coordinator 100 example_verify"

abbreviation example_server ::
  "(nat coordinator_state, nat change list, (string \<times> nat register) list) server" where
  "example_server \<equiv>
     \<lparr>connections = (\<lambda>_. new_Connection), registered = {}, userLinks = [],
      coordinator = \<lparr>co_documents = [], co_subscribers = []\<rparr>, connectionCounter = 0,
      pending = []\<rparr>"

abbreviation example_connected ::
  "(nat coordinator_state, nat change list, (string \<times> nat register) list) server" where
  "example_connected \<equiv> handleConnection example_env (handleConnection example_env example_server)"

abbreviation example_delta :: "nat change list" where
  "example_delta \<equiv>
     [\<lparr>ch_path = ''title'', ch_value = 1, ch_stamp = (1, ''alice''), ch_origin = ''alice''\<rparr>]"

text \<open>
  A run on two connections: \<open>alice\<close> (on \<open>conn-1\<close>) and \<open>bob\<close> (on \<open>conn-2\<close>)
  authenticate and subscribe to \<open>d\<close>.
\<close>

abbreviation example_subscribed ::
  "(nat coordinator_state, nat change list, (string \<times> nat register) list) server" where
  "example_subscribed \<equiv>
     on_messages example_env
       [(''conn-1'', AuthMessage (Some ''alice-token'') None),
        (''conn-2'', AuthMessage (Some ''bob-token'') None),
        (''conn-1'', SyncRequestMessage ''m1'' ''d'' None),
        (''conn-2'', SyncRequestMessage ''m2'' ''d'' None)]
       example_connected"

section \<open>Theorems: the SyncKit document cache\<close>

lemma cache_ok_ref:
  "cache_ok k \<Longrightarrow> map_of (documents k) i = Some r \<Longrightarrow>
   r < length (heap k) \<and> doc_id (heap k ! r) = i"
proof -
  assume ok: "cache_ok k" and c: "map_of (documents k) i = Some r"
  from map_of_SomeD [OF c] have "(i, r) \<in> set (documents k)" .
  with ok show ?thesis by (fastforce simp: cache_ok_def list_all_iff)
qed

lemma cache_ok_init: "SyncKit_init True (new_SyncKit c st) = Inr k \<Longrightarrow> cache_ok k"
  by (auto simp: SyncKit_init_def new_SyncKit_def cache_ok_def)

lemma doc_id_new_SyncDocument: "doc_id (new_SyncDocument i c s) = i"
  by (simp add: new_SyncDocument_def)

lemma cache_ok_document:
  assumes "cache_ok k"
  shows "\<exists>r k'. SyncKit_document i k = Inr (r, k') \<and> map_of (documents k') i = Some r \<and>
           cache_ok k'"
proof (cases "map_of (documents k) i")
  case None
  have "list_all (\<lambda>e. snd e < Suc (length (heap k)) \<and>
                     doc_id ((heap k @ [new_SyncDocument i (kit_clientId k) True]) ! snd e) = fst e)
          (documents k)"
    using assms by (auto simp: cache_ok_def list_all_iff nth_append)
  with None assms show ?thesis
    by (simp add: SyncKit_document_def cache_ok_def Let_def doc_id_new_SyncDocument
          map_add_def)
next
  case (Some r)
  with assms show ?thesis by (simp add: SyncKit_document_def cache_ok_def)
qed

lemma doc_id_dispose_heap:
  "r < length h \<Longrightarrow> doc_id (h[q := dispose (h ! q)] ! r) = doc_id (h ! r)"
  by (cases "q = r") (simp_all add: dispose_def)

lemma dispose_all_heap:
  "length (foldl (\<lambda>h r. h[r := dispose (h ! r)]) h rs) = length h"
  by (induction rs arbitrary: h) simp_all

lemma cache_ok_deleteDocument:
  assumes "cache_ok k"
  shows "\<exists>k'. SyncKit_deleteDocument i k = Inr k' \<and> cache_ok k'"
  using assms
  by (auto simp: SyncKit_deleteDocument_def cache_ok_def list_all_iff doc_id_dispose_heap
        split: option.splits)

lemma cache_ok_clearAll:
  assumes "cache_ok k"
  shows "\<exists>k'. SyncKit_clearAll k = Inr k' \<and> cache_ok k'"
  using assms by (simp add: SyncKit_clearAll_def cache_ok_def)

lemma cache_ok_calls:
  "cache_ok k \<Longrightarrow> \<exists>k'. SyncKit_calls cs k = Inr k' \<and> cache_ok k'"
proof (induction cs arbitrary: k)
  case Nil
  then show ?case by simp
next
  case (Cons c cs)
  have "\<exists>k1. SyncKit_call c k = Inr k1 \<and> cache_ok k1"
  proof (cases c)
    case (Document i)
    with cache_ok_document [OF Cons.prems, of i] show ?thesis by auto
  next
    case (DeleteDocument i)
    with cache_ok_deleteDocument [OF Cons.prems, of i] show ?thesis by auto
  next
    case ClearAll
    with cache_ok_clearAll [OF Cons.prems] show ?thesis by auto
  qed
  then obtain k1 where k1: "SyncKit_call c k = Inr k1" "cache_ok k1" by blast
  from Cons.IH [OF k1(2)] k1(1) show ?case by simp
qed

lemma SyncKit_document_kept:
  assumes "SyncKit_document j k = Inr (r', k')" and "map_of (documents k) i = Some r"
  shows "map_of (documents k') i = Some r \<and>
         filter (\<lambda>d. doc_id d = i) (heap k') = filter (\<lambda>d. doc_id d = i) (heap k)"
proof (cases "map_of (documents k) j")
  case None
  with assms(2) have "j \<noteq> i" by auto
  with None assms show ?thesis
    by (auto simp: SyncKit_document_def Let_def map_of_append new_SyncDocument_def
          split: if_splits)
next
  case (Some q)
  with assms show ?thesis by (auto simp: SyncKit_document_def split: if_splits)
qed

lemma SyncKit_documents_kept:
  "cache_ok k \<Longrightarrow> map_of (documents k) i = Some r \<Longrightarrow>
   \<exists>rs k'. SyncKit_documents js k = Inr (rs, k') \<and> map_of (documents k') i = Some r \<and>
     cache_ok k' \<and>
     filter (\<lambda>d. doc_id d = i) (heap k') = filter (\<lambda>d. doc_id d = i) (heap k)"
proof (induction js arbitrary: k)
  case Nil
  then show ?case by simp
next
  case (Cons j js)
  from cache_ok_document [OF Cons.prems(1), of j]
  obtain r1 k1 where s1: "SyncKit_document j k = Inr (r1, k1)" and i1: "cache_ok k1"
    by blast
  note kept = SyncKit_document_kept [OF s1 Cons.prems(2)]
  from Cons.IH [OF i1 conjunct1 [OF kept]] obtain rs k2 where
    "SyncKit_documents js k1 = Inr (rs, k2)" "map_of (documents k2) i = Some r" "cache_ok k2"
    "filter (\<lambda>d. doc_id d = i) (heap k2) = filter (\<lambda>d. doc_id d = i) (heap k1)"
    by blast
  with s1 kept show ?case by simp
qed

lemma SyncKit_document_hit:
  "cache_ok k \<Longrightarrow> map_of (documents k) i = Some r \<Longrightarrow> SyncKit_document i k = Inr (r, k)"
  by (simp add: SyncKit_document_def cache_ok_def)

text \<open>
  C10. A kit is constructed and initialised, and used by any history \<open>cs\<close> of
  \<^verbatim>\<open>document\<close>, \<^verbatim>\<open>deleteDocument\<close> and \<^verbatim>\<open>clearAll\<close> calls. Then \<^verbatim>\<open>document(id)\<close>
  returns a reference \<open>r\<close> that the cache now holds for the id and that is an object of
  the heap with this id. After any further run of \<^verbatim>\<open>document\<close> calls (for any ids
  \<open>js\<close>, the same one included), \<^verbatim>\<open>document(id)\<close> again returns the identical reference
  \<open>r\<close> and leaves the kit as it is; \<open>r\<close> is still the cached object of the id, and the
  objects of the heap with this id are those there were after the first call: no second
  object was created for the id.
\<close>

theorem SyncKit_document_cached:
  "\<exists>k0 k r k1 rs k2.
     SyncKit_init True (new_SyncKit c st) = Inr k0 \<and>
     SyncKit_calls cs k0 = Inr k \<and>
     SyncKit_document i k = Inr (r, k1) \<and>
     map_of (documents k1) i = Some r \<and> r < length (heap k1) \<and> doc_id (heap k1 ! r) = i \<and>
     SyncKit_documents js k1 = Inr (rs, k2) \<and>
     SyncKit_document i k2 = Inr (r, k2) \<and>
     map_of (documents k2) i = Some r \<and> r < length (heap k2) \<and> doc_id (heap k2 ! r) = i \<and>
     filter (\<lambda>d. doc_id d = i) (heap k2) = filter (\<lambda>d. doc_id d = i) (heap k1)"
proof -
  obtain k0 :: "('a, 'b) synckit" where
    s0: "SyncKit_init True (new_SyncKit c st) = Inr k0"
    by (simp add: SyncKit_init_def new_SyncKit_def)
  from cache_ok_calls [OF cache_ok_init [OF s0], of cs] obtain k where
    s: "SyncKit_calls cs k0 = Inr k" and ok: "cache_ok k"
    by blast
  from cache_ok_document [OF ok, of i] obtain r k1 where
    s1: "SyncKit_document i k = Inr (r, k1)" and c1: "map_of (documents k1) i = Some r"
    and ok1: "cache_ok k1"
    by blast
  from SyncKit_documents_kept [OF ok1 c1, of js] obtain rs k2 where
    s2: "SyncKit_documents js k1 = Inr (rs, k2)" and c2: "map_of (documents k2) i = Some r"
    and ok2: "cache_ok k2"
    and h2: "filter (\<lambda>d. doc_id d = i) (heap k2) = filter (\<lambda>d. doc_id d = i) (heap k1)"
    by blast
  from s0 s s1 c1 cache_ok_ref [OF ok1 c1] s2 SyncKit_document_hit [OF ok2 c2] c2
    cache_ok_ref [OF ok2 c2] h2
  show ?thesis by blast
qed

text \<open>
  A concrete history: \<open>todo-1\<close> is opened, deleted and opened again, which creates a
  second object (reference 1) once the first is out of the cache; from then on, with
  \<open>todo-2\<close> opened in between, \<^verbatim>\<open>document('todo-1')\<close> keeps returning reference 1.
\<close>

lemma SyncKit_document_example:
  "\<exists>k0 k k1 k2.
     SyncKit_init True (new_SyncKit ''A'' Map.empty :: (nat document, nat) synckit) = Inr k0 \<and>
     SyncKit_calls [Document ''todo-1'', DeleteDocument ''todo-1''] k0 = Inr k \<and>
     SyncKit_document ''todo-1'' k = Inr (1, k1) \<and>
     SyncKit_documents [''todo-2'', ''todo-1''] k1 = Inr ([2, 1], k2) \<and>
     SyncKit_document ''todo-1'' k2 = Inr (1, k2) \<and>
     map doc_id (heap k2) = [''todo-1'', ''todo-1'', ''todo-2''] \<and>
     documents k2 = [(''todo-1'', 1), (''todo-2'', 2)]"
  by (simp add: SyncKit_init_def new_SyncKit_def SyncKit_document_def
        SyncKit_deleteDocument_def new_SyncDocument_def dispose_def)

section \<open>Theorems: the clock of a multi-field update\<close>

lemma foldl_bind_None:
  "foldl (\<lambda>acc (m, (f, v)). Option.bind acc (g f v m)) None xs = None"
  by (induction xs) auto

lemma update_loop_calls:
  "update_loop K c es n w =
     map_option (\<lambda>w'. (n + length es, w'))
       (foldl (\<lambda>acc (m, (f, v)). Option.bind acc (wasm_setField K f v m c)) (Some w)
          (zip [n + 1 ..< n + 1 + length es] es))"
proof (induction es arbitrary: n w)
  case Nil
  then show ?case by simp
next
  case (Cons e es)
  obtain f v where e: "e = (f, v)" by (cases e)
  have z: "zip [n + 1 ..< n + 1 + length (e # es)] (e # es)
             = (n + 1, e) # zip [n + 1 + 1 ..< n + 1 + 1 + length es] es"
    by (subst upt_conv_Cons) simp_all
  show ?case
  proof (cases "wasm_setField K f v (n + 1) c w")
    case None
    then show ?thesis unfolding z by (simp add: e foldl_bind_None)
  next
    case (Some w')
    then show ?thesis using Cons.IH [of "n + 1" w'] unfolding z by (simp add: e)
  qed
qed

text \<open>
  C6. \<^verbatim>\<open>update(updates)\<close> on an initialised document, whatever the core: the entries of
  \<open>updates\<close> are written to the core in order, the entry at position \<open>i\<close> (from 0) with
  the clock \<open>clock d + 1 + i\<close>, so the clocks handed over are
  \<open>clock d + 1, ..., clock d + length es\<close>, one per field, distinct and increasing. When
  no call of the core throws, the update returns and has advanced the document's logical
  clock by the number of fields written; when one throws, the update fails.
\<close>

theorem SyncDocument_update_ticks_per_field:
  assumes "wasmDoc d = Some w"
  shows "case foldl (\<lambda>acc (m, (f, v)). Option.bind acc (wasm_setField K f v m (clientId d)))
                (Some w) (zip [clock d + 1 ..< clock d + 1 + length es] es) of
           None \<Rightarrow> SyncDocument_update K now es (d, st) = Inl WasmThrown
         | Some w' \<Rightarrow>
             (\<exists>d' st'. SyncDocument_update K now es (d, st) = Inr (d', st') \<and>
                clock d' = clock d + length es \<and> wasmDoc d' = Some w')"
  using assms
  by (auto simp: SyncDocument_update_def update_loop_calls Let_def updateLocalState_def
        notifySubscribers_def split: option.splits)

theorem SyncDocument_update_ticks_per_field_witness:
  "wasmDoc
     (\<lparr>doc_id = ''todo-1'', clientId = ''A'', has_storage = True,
       wasmDoc = Some (new_document ''todo-1''), subscribers = [], delivered = [],
       data = [], clock = 0\<rparr> :: (nat document, nat) sync_document)
     = Some (new_document ''todo-1'') \<and>
   (\<exists>d' st'.
      SyncDocument_update lww_core 7 [(''title'', 1 :: nat), (''done'', 2)]
        (\<lparr>doc_id = ''todo-1'', clientId = ''A'', has_storage = True,
          wasmDoc = Some (new_document ''todo-1''), subscribers = [], delivered = [],
          data = [], clock = 0\<rparr>, Map.empty) = Inr (d', st') \<and>
      clock d' = 2 \<and>
      wasmDoc d' =
        Some \<lparr>document_id = ''todo-1'',
              doc_fields =
                [(''title'', \<lparr>reg_value = 1, reg_stamp = (1, ''A''), reg_origin = ''A''\<rparr>),
                 (''done'', \<lparr>reg_value = 2, reg_stamp = (2, ''A''), reg_origin = ''A''\<rparr>)],
              vclock = [(''A'', 2)]\<rparr>)"
  using SyncDocument_update_ticks_per_field
    [where d = "\<lparr>doc_id = ''todo-1'', clientId = ''A'', has_storage = True,
          wasmDoc = Some (new_document ''todo-1''), subscribers = [], delivered = [],
          data = [], clock = 0\<rparr> :: (nat document, nat) sync_document"
       and w = "new_document ''todo-1''" and K = lww_core
       and es = "[(''title'', 1), (''done'', 2)]" and now = 7 and st = Map.empty]
  by (simp add: lww_core_def write_field_def assign_def new_document_def observe_def
        vc_get_def stamp_less_def SyncDocument_update_def updateLocalState_def
        notifySubscribers_def persist_def Number_of_bigint_def)

section \<open>Theorems: merging a vector clock in PostgreSQL\<close>

lemma upsert_clock_row:
  assumes "upsert_clock doc c v db = Some db'" "length doc \<le> 255" "length c \<le> 255"
  shows "vector_clocks db' = (vector_clocks db)((doc, c) \<mapsto>
            (case vector_clocks db (doc, c) of None \<Rightarrow> v | Some old \<Rightarrow> max old v))"
    and "pg_documents db' = pg_documents db"
  using assms
  by (auto simp: upsert_clock_def varchar255_def split: if_splits option.splits)

lemma merge_loop_rows:
  assumes "merge_loop doc es db = Some db'" "length doc \<le> 255"
    "list_all (\<lambda>c. length c \<le> 255) (map fst es)" "distinct (map fst es)"
  shows "vector_clocks db' (d, r) =
           (if d = doc then
              (case map_of es r of
                 None \<Rightarrow> vector_clocks db (d, r)
               | Some v \<Rightarrow>
                   Some (case vector_clocks db (d, r) of None \<Rightarrow> v | Some old \<Rightarrow> max old v))
            else vector_clocks db (d, r))"
  using assms
proof (induction es arbitrary: db)
  case Nil
  then show ?case by simp
next
  case (Cons e es)
  obtain c v where e: "e = (c, v)" by (cases e)
  from Cons.prems(1) obtain db1 where
    u: "upsert_clock doc c v db = Some db1" and m: "merge_loop doc es db1 = Some db'"
    by (auto simp: e split: option.splits)
  have len: "length c \<le> 255" using Cons.prems(3) by (simp add: e)
  have row: "vector_clocks db1 = (vector_clocks db)((doc, c) \<mapsto>
            (case vector_clocks db (doc, c) of None \<Rightarrow> v | Some old \<Rightarrow> max old v))"
    using upsert_clock_row(1) [OF u Cons.prems(2) len] .
  have notin: "map_of es c = None" using Cons.prems(4) by (simp add: e map_of_eq_None_iff)
  have ih: "vector_clocks db' (d, r) =
           (if d = doc then
              (case map_of es r of
                 None \<Rightarrow> vector_clocks db1 (d, r)
               | Some v \<Rightarrow>
                   Some (case vector_clocks db1 (d, r) of None \<Rightarrow> v | Some old \<Rightarrow> max old v))
            else vector_clocks db1 (d, r))"
    using Cons.IH [OF m Cons.prems(2)] Cons.prems(3,4) by (simp add: e)
  show ?case
    using notin by (auto simp: ih row e split: option.splits)
qed

lemma mergeVectorClock_rollback:
  "mergeVectorClock doc incoming db = (Some e, db') \<Longrightarrow> db' = db"
  by (auto simp: mergeVectorClock_def split: option.splits)

text \<open>
  Whatever the ids, a merge that commits lowers no stored coordinate and removes none.
\<close>

lemma upsert_clock_grows:
  "upsert_clock doc c v db = Some db1 \<Longrightarrow> vector_clocks db k = Some old \<Longrightarrow>
   \<exists>new. vector_clocks db1 k = Some new \<and> old \<le> new"
  by (auto simp: upsert_clock_def split: if_splits option.splits)

lemma merge_loop_grows:
  "merge_loop doc es db = Some db' \<Longrightarrow> vector_clocks db k = Some old \<Longrightarrow>
   \<exists>new. vector_clocks db' k = Some new \<and> old \<le> new"
proof (induction es arbitrary: db old)
  case Nil
  then show ?case by simp
next
  case (Cons e es)
  obtain c v where e: "e = (c, v)" by (cases e)
  from Cons.prems(1) obtain db1 where
    u: "upsert_clock doc c v db = Some db1" and m: "merge_loop doc es db1 = Some db'"
    by (auto simp: e split: option.splits)
  from upsert_clock_grows [OF u Cons.prems(2)] obtain mid where
    mid: "vector_clocks db1 k = Some mid" "old \<le> mid"
    by blast
  from Cons.IH [OF m mid(1)] obtain new where "vector_clocks db' k = Some new" "mid \<le> new"
    by blast
  with mid(2) show ?case by auto
qed

lemma mergeVectorClock_never_decreases:
  "mergeVectorClock doc incoming db = (None, db') \<Longrightarrow> vector_clocks db k = Some old \<Longrightarrow>
   \<exists>new. vector_clocks db' k = Some new \<and> old \<le> new"
  by (auto simp: mergeVectorClock_def merge_loop_grows split: option.splits)

text \<open>
  C7 (as amended). The document id and the replica ids of the incoming clock have at most
  255 characters, the width of the \<^verbatim>\<open>VARCHAR(255)\<close> columns that hold them. When
  \<^verbatim>\<open>mergeVectorClock\<close> completes (the transaction commits), every coordinate of the
  document named in the incoming clock is stored as the maximum of its previous value and
  the incoming one (the incoming value itself where no row existed), every other row is as
  before, and no stored coordinate has decreased. The incoming clock is a JavaScript
  object, so its keys are distinct.
\<close>

theorem mergeVectorClock_takes_max:
  assumes "mergeVectorClock doc incoming db = (None, db')"
    and "distinct (map fst incoming)"
    and "length doc \<le> 255"
    and "list_all (\<lambda>c. length c \<le> 255) (map fst incoming)"
  shows "(\<forall>r. vector_clocks db' (doc, r) =
              (case map_of incoming r of
                 None \<Rightarrow> vector_clocks db (doc, r)
               | Some v \<Rightarrow>
                   Some (case vector_clocks db (doc, r) of None \<Rightarrow> v | Some old \<Rightarrow> max old v))) \<and>
         (\<forall>d r. d \<noteq> doc \<longrightarrow> vector_clocks db' (d, r) = vector_clocks db (d, r)) \<and>
         (\<forall>k old. vector_clocks db k = Some old \<longrightarrow>
              (\<exists>new. vector_clocks db' k = Some new \<and> old \<le> new))"
proof -
  from assms(1) have m: "merge_loop doc incoming db = Some db'"
    by (auto simp: mergeVectorClock_def split: option.splits)
  note rows = merge_loop_rows [OF m assms(3,4,2)]
  have a: "\<forall>r. vector_clocks db' (doc, r) =
              (case map_of incoming r of
                 None \<Rightarrow> vector_clocks db (doc, r)
               | Some v \<Rightarrow>
                   Some (case vector_clocks db (doc, r) of None \<Rightarrow> v | Some old \<Rightarrow> max old v))"
    by (simp add: rows)
  have b: "\<forall>d r. d \<noteq> doc \<longrightarrow> vector_clocks db' (d, r) = vector_clocks db (d, r)"
    by (simp add: rows)
  have c: "\<exists>new. vector_clocks db' k = Some new \<and> old \<le> new"
    if "vector_clocks db k = Some old" for k old
  proof -
    obtain d r where k: "k = (d, r)" by (cases k)
    show ?thesis using that by (auto simp: k rows split: option.splits)
  qed
  from a b c show ?thesis by blast
qed

theorem mergeVectorClock_takes_max_witness:
  "\<exists>db'. mergeVectorClock ''d1'' [(''A'', 3), (''B'', 7), (''C'', 1)]
       \<lparr>pg_documents = {''d1''},
        vector_clocks = [(''d1'', ''A'') \<mapsto> 5, (''d1'', ''B'') \<mapsto> 2]\<rparr> = (None, db') \<and>
     distinct (map fst [(''A'', 3 :: int), (''B'', 7), (''C'', 1)]) \<and>
     vector_clocks db' (''d1'', ''A'') = Some 5 \<and>
     vector_clocks db' (''d1'', ''B'') = Some 7 \<and>
     vector_clocks db' (''d1'', ''C'') = Some 1"
  using mergeVectorClock_takes_max
    [where doc = "''d1''" and incoming = "[(''A'', 3), (''B'', 7), (''C'', 1)]"
       and db = "\<lparr>pg_documents = {''d1''},
        vector_clocks = [(''d1'', ''A'') \<mapsto> 5, (''d1'', ''B'') \<mapsto> 2]\<rparr>"
       and db' = "snd (mergeVectorClock ''d1'' [(''A'', 3), (''B'', 7), (''C'', 1)]
       \<lparr>pg_documents = {''d1''},
        vector_clocks = [(''d1'', ''A'') \<mapsto> 5, (''d1'', ''B'') \<mapsto> 2]\<rparr>)"]
  by (simp add: mergeVectorClock_def upsert_clock_def varchar255_def in_bigint_def)

text \<open>
  C7 as stated fails. The incoming clock names two replicas: one whose id has 255
  characters, with coordinate 3, and one whose id is the same 255 characters and a space,
  with coordinate 7. The space in excess of the column width is cut off when the second id
  is stored, so both statements write the one row of the first id. The merge commits; the
  coordinate stored for the first replica is 7, not the maximum of nothing and its incoming
  value 3, and no row has the id of the second replica.
\<close>

theorem mergeVectorClock_counterexample:
  "length (replicate 255 CHR ''x'') = 255 \<and>
   distinct (map fst [(replicate 255 CHR ''x'', 3 :: int), (replicate 255 CHR ''x'' @ '' '', 7)]) \<and>
   (\<exists>db'. mergeVectorClock ''d1''
             [(replicate 255 CHR ''x'', 3), (replicate 255 CHR ''x'' @ '' '', 7)]
             \<lparr>pg_documents = {''d1''}, vector_clocks = Map.empty\<rparr> = (None, db') \<and>
          vector_clocks db' (''d1'', replicate 255 CHR ''x'') = Some 7 \<and>
          vector_clocks db' (''d1'', replicate 255 CHR ''x'' @ '' '') = None)"
  by (simp add: mergeVectorClock_def upsert_clock_def varchar255_def in_bigint_def)

text \<open>
  A merge that raises leaves the database as it was: here the document has no row in
  \<^verbatim>\<open>documents\<close>, so the insert violates the foreign key.
\<close>

theorem mergeVectorClock_rollback_witness:
  "mergeVectorClock ''d2'' [(''A'', 3)]
       \<lparr>pg_documents = {''d1''}, vector_clocks = [(''d1'', ''A'') \<mapsto> 5]\<rparr>
     = (Some (QueryError ''Failed to merge vector clock for d2''),
        \<lparr>pg_documents = {''d1''}, vector_clocks = [(''d1'', ''A'') \<mapsto> 5]\<rparr>)"
  using mergeVectorClock_rollback
    [where doc = "''d2''" and incoming = "[(''A'', 3)]"
       and db = "\<lparr>pg_documents = {''d1''}, vector_clocks = [(''d1'', ''A'') \<mapsto> 5]\<rparr>"
       and e = "QueryError ''Failed to merge vector clock for d2''"
       and db' = "\<lparr>pg_documents = {''d1''}, vector_clocks = [(''d1'', ''A'') \<mapsto> 5]\<rparr>"]
  by (simp add: mergeVectorClock_def upsert_clock_def varchar255_def in_bigint_def)


section \<open>Theorems: reading, deleting and reloading fields of a SyncDocument\<close>

text \<open>
  C8. An initialised document with no field: \<^verbatim>\<open>getField('toString')\<close> reads
  \<^verbatim>\<open>this.data['toString']\<close>, which is no own property of the data object and so is
  the function inherited from \<^verbatim>\<open>Object.prototype\<close>, not \<^verbatim>\<open>undefined\<close>.
\<close>

theorem SyncDocument_getField_inherited:
  "\<exists>d. SyncDocument_init lww_core Map.empty
          (new_SyncDocument ''todo-1'' ''A'' True :: (nat document, nat) sync_document) = Inr d \<and>
        data d = [] \<and>
        SyncDocument_getField d ''toString'' = Inherited ''toString''"
  by (simp add: SyncDocument_init_def new_SyncDocument_def lww_core_def new_document_def
        updateLocalState_def SyncDocument_getField_def js_get_def object_prototype_keys_def)

text \<open>
  For every other path that was never set, \<^verbatim>\<open>getField\<close> does return \<^verbatim>\<open>undefined\<close>;
  it has no way to raise.
\<close>

lemma SyncDocument_getField_never_set:
  "map_of (data d) field = None \<Longrightarrow> field \<notin> set object_prototype_keys \<Longrightarrow>
   SyncDocument_getField d field = Undefined"
  by (simp add: SyncDocument_getField_def js_get_def)

theorem SyncDocument_getField_never_set_witness:
  "map_of (data (\<lparr>doc_id = ''todo-1'', clientId = ''A'', has_storage = True,
          wasmDoc = Some (new_document ''todo-1''), subscribers = [], delivered = [],
          data = [(''title'', 1)], clock = 1\<rparr> :: (nat document, nat) sync_document)) ''due'' = None \<and>
   ''due'' \<notin> set object_prototype_keys \<and>
   SyncDocument_getField (\<lparr>doc_id = ''todo-1'', clientId = ''A'', has_storage = True,
          wasmDoc = Some (new_document ''todo-1''), subscribers = [], delivered = [],
          data = [(''title'', 1)], clock = 1\<rparr> :: (nat document, nat) sync_document) ''due'' = Undefined"
  using SyncDocument_getField_never_set
    [where d = "\<lparr>doc_id = ''todo-1'', clientId = ''A'', has_storage = True,
          wasmDoc = Some (new_document ''todo-1''), subscribers = [], delivered = [],
          data = [(''title'', 1)], clock = 1\<rparr> :: (nat document, nat) sync_document"
       and field = "''due''"]
  by (simp add: object_prototype_keys_def)



lemma persist_delivered: "persist now (d\<lparr>delivered := x\<rparr>) st = persist now d st"
  by (simp add: persist_def)





lemma update_fresh_key:
  "k \<notin> fst ` set al \<Longrightarrow> AList.update k v al = al @ [(k, v)]"
  by (induction al) auto

lemma stored_clock_own: "stored_clock [(c, n)] c = Inr n"
  by (simp add: stored_clock_def js_get_def)

lemma observe_again:
  "vc = [] \<or> vc = [(c, N)] \<Longrightarrow> observe c N vc = [(c, N)]"
  by (auto simp: observe_def vc_get_def max_def)

lemma setField_fresh:
  assumes "path \<notin> fst ` set (doc_fields w)" "vclock w = [] \<or> vclock w = [(c, of_nat n)]"
  shows "wasm_setField lww_core path v n c w =
           Some (w\<lparr>doc_fields := doc_fields w @
                      [(path, \<lparr>reg_value = v, reg_stamp = (of_nat n, c), reg_origin = c\<rparr>)],
                   vclock := [(c, of_nat n)]\<rparr>)"
proof -
  have "map_of (doc_fields w) path = None"
    using assms(1) by (simp add: map_of_eq_None_iff)
  then show ?thesis
    using assms
    by (simp add: lww_core_def write_field_def assign_def update_fresh_key observe_again)
qed

lemma load_fields_lww:
  assumes "distinct (map fst es)" "fst ` set (doc_fields w) \<inter> fst ` set es = {}"
    "vclock w = [] \<or> vclock w = [(c, of_nat n)]"
  shows "load_fields lww_core c [(c, n)] es w =
           Inr (w\<lparr>doc_fields := doc_fields w @
                     map (\<lambda>(p, v). (p, \<lparr>reg_value = v, reg_stamp = (of_nat n, c),
                                         reg_origin = c\<rparr>)) es,
                  vclock := (if es = [] then vclock w else [(c, of_nat n)])\<rparr>)"
  using assms
proof (induction es arbitrary: w)
  case Nil
  then show ?case by simp
next
  case (Cons e es)
  obtain p v where e: "e = (p, v)" by (cases e)
  let ?w1 = "w\<lparr>doc_fields := doc_fields w @
                      [(p, \<lparr>reg_value = v, reg_stamp = (of_nat n, c), reg_origin = c\<rparr>)],
                   vclock := [(c, of_nat n)]\<rparr>"
  have fresh: "p \<notin> fst ` set (doc_fields w)" using Cons.prems(2) by (auto simp: e)
  have s: "wasm_setField lww_core p v n c w = Some ?w1"
    using setField_fresh [OF fresh Cons.prems(3)] .
  have d: "distinct (map fst es)" using Cons.prems(1) by simp
  have dis: "fst ` set (doc_fields ?w1) \<inter> fst ` set es = {}"
    using Cons.prems(1,2) by (auto simp: e)
  have vc: "vclock ?w1 = [] \<or> vclock ?w1 = [(c, of_nat n)]" by simp
  show ?case
    using Cons.IH [OF d dis vc] by (simp add: e stored_clock_own s)
qed

lemma values_of_registers:
  "map (\<lambda>(p, r). (p, reg_value r))
     (map (\<lambda>(p, v). (p, \<lparr>reg_value = v, reg_stamp = s, reg_origin = c\<rparr>)) xs) = xs"
  by (induction xs) auto

text \<open>
  C3 (as amended). A document with a storage adapter and an initialised core, whose data
  has distinct keys and whose clock is below \<open>2^53\<close>, is persisted; a new
  \<^verbatim>\<open>SyncDocument\<close> for the same id and client then loads the stored form into the core
  of the specification. The load returns, and reproduces every field path with its value
  and the document's logical clock. The stamps are not part of the stored form: every
  loaded register carries the stamp (stored clock, this client) and this client as its
  origin, and the vector clock holds this client's coordinate only.
\<close>

theorem persist_loadFromStored_roundtrip:
  assumes "has_storage d" "wasmDoc d = Some w" "distinct (map fst (data d))"
    "clock d < 2 ^ 53"
  shows "\<exists>d2. SyncDocument_init lww_core (persist now d st)
                 (new_SyncDocument (doc_id d) (clientId d) True) = Inr d2 \<and>
           data d2 = data d \<and> clock d2 = clock d \<and>
           wasmDoc d2 =
             Some \<lparr>document_id = doc_id d,
                   doc_fields =
                     map (\<lambda>(p, v). (p, \<lparr>reg_value = v,
                                          reg_stamp = (of_nat (clock d), clientId d),
                                          reg_origin = clientId d\<rparr>)) (data d),
                   vclock = (if data d = [] then [] else [(clientId d, of_nat (clock d))])\<rparr>"
proof -
  let ?n = "clock d" and ?c = "clientId d"
  let ?regs = "map (\<lambda>(p, v). (p, \<lparr>reg_value = v, reg_stamp = (of_nat ?n, ?c),
                                         reg_origin = ?c\<rparr>)) (data d)"
  have l: "load_fields lww_core ?c [(?c, ?n)] (data d)
             \<lparr>document_id = doc_id d, doc_fields = [], vclock = []\<rparr> =
       Inr \<lparr>document_id = doc_id d, doc_fields = ?regs,
            vclock = (if data d = [] then [] else [(?c, of_nat ?n)])\<rparr>"
    using load_fields_lww [where es = "data d" and c = ?c and n = ?n
        and w = "\<lparr>document_id = doc_id d, doc_fields = [], vclock = []\<rparr>"] assms(3)
    by simp
  have n: "wasm_new lww_core (doc_id d) = \<lparr>document_id = doc_id d, doc_fields = [], vclock = []\<rparr>"
    by (simp add: lww_core_def new_document_def)
  have j: "wasm_toJSON lww_core x = map (\<lambda>(p, r). (p, reg_value r)) (doc_fields x)"
    for x :: "'b document"
    by (simp add: lww_core_def)
  show ?thesis
    using assms(1,2,4)
    by (simp add: SyncDocument_init_def persist_def new_SyncDocument_def loadFromStored_def
        Number_of_bigint_def updateLocalState_def n l j values_of_registers del: map_map)
qed


theorem persist_loadFromStored_roundtrip_witness:
  "has_storage
     (\<lparr>doc_id = ''todo-1'', clientId = ''A'', has_storage = True,
         wasmDoc =
           Some \<lparr>document_id = ''todo-1'',
                 doc_fields =
                   [(''title'', \<lparr>reg_value = 1, reg_stamp = (1, ''A''), reg_origin = ''A''\<rparr>),
                    (''done'', \<lparr>reg_value = 2, reg_stamp = (2, ''A''), reg_origin = ''A''\<rparr>)],
                 vclock = [(''A'', 2)]\<rparr>,
         subscribers = [], delivered = [], data = [(''title'', 1), (''done'', 2)],
         clock = 2\<rparr> :: (nat document, nat) sync_document) \<and>
   (\<exists>d2. SyncDocument_init lww_core
           (persist 7 (\<lparr>doc_id = ''todo-1'', clientId = ''A'', has_storage = True,
         wasmDoc =
           Some \<lparr>document_id = ''todo-1'',
                 doc_fields =
                   [(''title'', \<lparr>reg_value = 1, reg_stamp = (1, ''A''), reg_origin = ''A''\<rparr>),
                    (''done'', \<lparr>reg_value = 2, reg_stamp = (2, ''A''), reg_origin = ''A''\<rparr>)],
                 vclock = [(''A'', 2)]\<rparr>,
         subscribers = [], delivered = [], data = [(''title'', 1), (''done'', 2)],
         clock = 2\<rparr> :: (nat document, nat) sync_document) Map.empty)
           (new_SyncDocument ''todo-1'' ''A'' True) = Inr d2 \<and>
         data d2 = [(''title'', 1), (''done'', 2)] \<and> clock d2 = 2)"
  using persist_loadFromStored_roundtrip
    [where d = "\<lparr>doc_id = ''todo-1'', clientId = ''A'', has_storage = True,
         wasmDoc =
           Some \<lparr>document_id = ''todo-1'',
                 doc_fields =
                   [(''title'', \<lparr>reg_value = 1, reg_stamp = (1, ''A''), reg_origin = ''A''\<rparr>),
                    (''done'', \<lparr>reg_value = 2, reg_stamp = (2, ''A''), reg_origin = ''A''\<rparr>)],
                 vclock = [(''A'', 2)]\<rparr>,
         subscribers = [], delivered = [], data = [(''title'', 1), (''done'', 2)],
         clock = 2\<rparr> :: (nat document, nat) sync_document"
       and w = "\<lparr>document_id = ''todo-1'',
                 doc_fields =
                   [(''title'', \<lparr>reg_value = 1, reg_stamp = (1, ''A''), reg_origin = ''A''\<rparr>),
                    (''done'', \<lparr>reg_value = 2, reg_stamp = (2, ''A''), reg_origin = ''A''\<rparr>)],
                 vclock = [(''A'', 2)]\<rparr>" and now = 7 and st = Map.empty]
  by auto

text \<open>
  What \<^verbatim>\<open>persist\<close> stores does not depend on what the core holds: two documents
  that differ only in their cores (so in the stamps of their fields) are persisted alike.
\<close>

theorem persist_ignores_stamps:
  "persist now (d\<lparr>wasmDoc := Some w\<rparr>) st = persist now (d\<lparr>wasmDoc := Some w'\<rparr>) st"
  by (simp add: persist_def)

text \<open>
  C3 as stated fails. Client \<open>A\<close> writes \<open>title\<close> and \<open>done\<close> in one update: their
  stamps are \<open>(1, A)\<close> and \<open>(2, A)\<close>. After persisting and loading, \<open>title\<close> carries the
  stamp \<open>(2, A)\<close>: the stamp of the field has not survived the round trip.
\<close>

theorem persist_loadFromStored_counterexample:
  "\<exists>d1 st1 d2.
     SyncDocument_update lww_core 7 [(''title'', 1 :: nat), (''done'', 2)]
       (\<lparr>doc_id = ''todo-1'', clientId = ''A'', has_storage = True,
         wasmDoc = Some (new_document ''todo-1''), subscribers = [], delivered = [],
         data = [], clock = 0\<rparr>, Map.empty) = Inr (d1, st1) \<and>
     SyncDocument_init lww_core st1 (new_SyncDocument ''todo-1'' ''A'' True) = Inr d2 \<and>
     map_option (\<lambda>w. map_option reg_stamp (map_of (doc_fields w) ''title'')) (wasmDoc d1)
       = Some (Some (1, ''A'')) \<and>
     map_option (\<lambda>w. map_option reg_stamp (map_of (doc_fields w) ''title'')) (wasmDoc d2)
       = Some (Some (2, ''A'')) \<and>
     wasmDoc d2 \<noteq>  wasmDoc d1"
  by (simp add: SyncDocument_update_def SyncDocument_init_def loadFromStored_def
        stored_clock_def js_get_def new_SyncDocument_def lww_core_def write_field_def
        assign_def new_document_def observe_def vc_get_def stamp_less_def
        updateLocalState_def notifySubscribers_def persist_def Number_of_bigint_def)



section \<open>Theorems: the WebSocket server\<close>

lemma reply_other [simp]:
  "k \<noteq> cid \<Longrightarrow> connections (reply cid m s) k = connections s k"
  by (simp add: reply_def)

lemma reply_conn_state [simp]:
  "conn_state (connections (reply cid m s) k) = conn_state (connections s k)"
  by (simp add: reply_def send_def)

lemma reply_registered [simp]: "registered (reply cid m s) = registered s"
  by (simp add: reply_def)

lemma reply_coordinator [simp]: "coordinator (reply cid m s) = coordinator s"
  by (simp add: reply_def)

lemma broadcast_loop_connections:
  assumes "distinct subs"
  shows "connections (broadcast_loop subs m ex s) k =
           (if k \<in> set subs \<and> Some k \<noteq> ex \<and> k \<in> registered s
               \<and> conn_state (connections s k) = AUTHENTICATED
            then send m (connections s k) else connections s k)"
  using assms
proof (induction subs arbitrary: s)
  case Nil
  then show ?case by simp
next
  case (Cons a subs)
  then show ?case
    by (auto simp: reply_def)
qed

lemma broadcast_loop_frame:
  "registered (broadcast_loop subs m ex s) = registered s \<and>
   coordinator (broadcast_loop subs m ex s) = coordinator s \<and>
   userLinks (broadcast_loop subs m ex s) = userLinks s \<and>
   pending (broadcast_loop subs m ex s) = pending s"
  by (induction subs arbitrary: s) (auto simp: reply_def)

text \<open>
  What \<^verbatim>\<open>handleDelta\<close> does with a Delta message from a connection that is
  authenticated and may write the document, when the coordinator's calls do not throw:
  the coordinator is left as \<^verbatim>\<open>mergeVectorClock\<close> returns it, and the message is sent,
  as it is, to exactly those subscribers of the document that are not the sender, are held
  by the registry and are in state \<^verbatim>\<open>AUTHENTICATED\<close>; no other connection changes.
\<close>

lemma handleDelta_broadcast:
  assumes "authenticated_payload (connections s cid) = Some payload"
    and "canWriteDocument E payload documentId"
    and "co_mergeVectorClock E documentId vectorClock (coordinator s) = Some c1"
    and "co_getSubscribers E documentId c1 = Some subs"
    and "distinct subs"
  shows "coordinator (handleDelta E cid documentId dl vectorClock s) = c1 \<and>
         (\<forall>k. connections (handleDelta E cid documentId dl vectorClock s) k =
            (if k \<in> set subs \<and> k \<noteq> cid \<and> k \<in> registered s
                \<and> conn_state (connections s k) = AUTHENTICATED
             then send (DeltaMessage documentId dl vectorClock) (connections s k)
             else connections s k))"
  using assms
  by (auto simp: handleDelta_def broadcast_def broadcast_loop_connections broadcast_loop_frame)

text \<open>
  C1. \<^verbatim>\<open>handleDelta\<close> does not read the delta of the message. Whatever the changes of
  the delta are, the coordinator, which holds the server's copy of the document, is left
  in one and the same state: either as it was, or as \<^verbatim>\<open>mergeVectorClock\<close> returns it
  for the vector clock of the message. No call of the handler is given the delta, except
  the broadcast that forwards the message.
\<close>

theorem handleDelta_ignores_delta:
  "coordinator (handleDelta E cid documentId dl vectorClock s)
     = coordinator (handleDelta E cid documentId dl' vectorClock s) \<and>
   (coordinator (handleDelta E cid documentId dl vectorClock s) = coordinator s \<or>
    co_mergeVectorClock E documentId vectorClock (coordinator s)
      = Some (coordinator (handleDelta E cid documentId dl vectorClock s)))"
  by (auto simp: handleDelta_def broadcast_def broadcast_loop_frame split: option.splits)

lemmas server_eval =
  tick_def handleAuth_resume_def disconnect_def handleConnection_def Let_def decimal.simps
  handleAuth_def auth_success_def handleSyncRequest_def handleDelta_def broadcast_def
  reply_def send_def sendError_def close_connection_def truthy_def new_Connection_def
  authenticated_payload_def spec_coordinator_def co_document_def subscribers_of_def
  new_document_def anonymous_payload_def

text \<open>
  The failing run. \<open>alice\<close> and \<open>bob\<close> are subscribed to the empty document \<open>d\<close>;
  \<open>alice\<close>, who may write it, sends a delta that sets \<open>title\<close> to 1 with stamp
  \<open>(1, alice)\<close>. The delta is forwarded to \<open>bob\<close> and the vector clock of the message is
  merged, but the server's document \<open>d\<close> still has no field: the state a sync request
  would be answered with is empty.
\<close>

lemma handleDelta_example:
  "sent (connections
     (handleDelta example_env ''conn-1'' ''d'' example_delta [(''alice'', 1)] example_subscribed)
     ''conn-2'')
     = [AuthSuccessMessage ''bob'' \<lparr>canRead = [''d''], canWrite = [], isAdmin = False\<rparr>,
        SyncResponseMessage ''m2'' ''d'' [] [],
        DeltaMessage ''d'' example_delta [(''alice'', 1)]] \<and>
   sent (connections
     (handleDelta example_env ''conn-1'' ''d'' example_delta [(''alice'', 1)] example_subscribed)
     ''conn-1'')
     = [AuthSuccessMessage ''alice''
          \<lparr>canRead = [''d''], canWrite = [''d''], isAdmin = False\<rparr>,
        SyncResponseMessage ''m1'' ''d'' [] []] \<and>
   vclock (co_document (coordinator
     (handleDelta example_env ''conn-1'' ''d'' example_delta [(''alice'', 1)] example_subscribed))
     ''d'') = [(''alice'', 1)] \<and>
   co_getDocumentState example_env ''d'' (coordinator
     (handleDelta example_env ''conn-1'' ''d'' example_delta [(''alice'', 1)] example_subscribed))
     = Some []"
  by (simp add: server_eval observe_def vc_get_def)




text \<open>
  C2. The server holds document \<open>d\<close> with the field \<open>title\<close> stamped \<open>(1, A)\<close>. A client
  subscribes with the known clock \<open>{A: 5}\<close>, which covers that stamp. The sync response
  still carries the field: its state is the whole document state, and its list of deltas
  is empty.
\<close>

theorem handleSyncRequest_sends_whole_state:
  "sent (connections
     (on_messages example_env
        [(''conn-1'', AuthMessage (Some ''alice-token'') None),
         (''conn-1'', SyncRequestMessage ''m1'' ''d'' (Some [(''A'', 5)]))]
        (handleConnection example_env
           (example_server\<lparr>coordinator :=
              \<lparr>co_documents =
                 [(''d'', \<lparr>document_id = ''d'',
                          doc_fields =
                            [(''title'', \<lparr>reg_value = 1, reg_stamp = (1, ''A''),
                                           reg_origin = ''A''\<rparr>)],
                          vclock = [(''A'', 1)]\<rparr>)],
               co_subscribers = []\<rparr>\<rparr>))) ''conn-1'')
   = [AuthSuccessMessage ''alice'' \<lparr>canRead = [''d''], canWrite = [''d''], isAdmin = False\<rparr>,
      SyncResponseMessage ''m1'' ''d''
        [(''title'', \<lparr>reg_value = 1, reg_stamp = (1, ''A''), reg_origin = ''A''\<rparr>)] []]"
  by (simp add: server_eval observe_def vc_get_def)



section \<open>Theorems: applying deltas in either order\<close>

lemma stamp_less_total: "stamp_less a b \<or> a = b \<or> stamp_less b a"
  by (auto simp: stamp_less_def prod_eq_iff)

lemma stamp_ge_trans:
  "\<not> stamp_less a b \<Longrightarrow> \<not> stamp_less b c \<Longrightarrow> \<not> stamp_less a c"
  by (auto simp: stamp_less_def)

lemma stamp_less_irrefl [simp]: "\<not> stamp_less a a"
  by (simp add: stamp_less_def)

lemma stamp_less_ge: "stamp_less a b \<Longrightarrow> \<not> stamp_less b a"
  by (auto simp: stamp_less_def)

lemma stamp_ge_antisym: "\<not> stamp_less a b \<Longrightarrow> \<not> stamp_less b a \<Longrightarrow> a = b"
  using stamp_less_total by blast

lemma top_of_unique:
  assumes "consistent_at W" "top_of W R" "top_of W R'"
  shows "map_option (\<lambda>r. (reg_value r, reg_stamp r)) R = map_option (\<lambda>r. (reg_value r, reg_stamp r)) R'"
proof (cases R)
  case None
  with assms show ?thesis by (cases R') (auto simp: top_of_def)
next
  case (Some r)
  with assms(2) have "W \<noteq> {}" by (auto simp: top_of_def)
  with assms(3) obtain r' where R': "R' = Some r'" by (cases R') (auto simp: top_of_def)
  from assms(2,3) Some R' have
    in1: "(reg_stamp r, reg_value r) \<in> W" and in2: "(reg_stamp r', reg_value r') \<in> W"
    and ge1: "\<not> stamp_less (reg_stamp r) (reg_stamp r')"
    and ge2: "\<not> stamp_less (reg_stamp r') (reg_stamp r)"
    by (auto simp: top_of_def)
  from ge1 ge2 have eq: "reg_stamp r = reg_stamp r'" by (rule stamp_ge_antisym [symmetric, THEN sym])
  with assms(1) in1 in2 have "reg_value r = reg_value r'"
    by (auto simp: consistent_at_def)
  with eq Some R' show ?thesis by simp
qed

lemma vc_get_observe:
  "vc_get (observe r v vc) r' = (if r' = r then max (vc_get vc r) v else vc_get vc r')"
  by (simp add: observe_def vc_get_def update_conv')

lemma write_field_ok:
  assumes "consistent_at (writes_at (ch_path c) d (c # cs))"
  shows "\<exists>d1. write_field (ch_path c) (ch_value c) (ch_stamp c) (ch_origin c) d = Inr d1 \<and>
           document_id d1 = document_id d \<and>
           (\<forall>p. p \<noteq> ch_path c \<longrightarrow> map_of (doc_fields d1) p = map_of (doc_fields d) p) \<and>
           top_of (step_writes (ch_path c) d c) (map_of (doc_fields d1) (ch_path c)) \<and>
           vclock d1 = observe (snd (ch_stamp c)) (fst (ch_stamp c)) (vclock d)"
proof (cases "map_of (doc_fields d) (ch_path c)")
  case None
  then show ?thesis
    by (simp add: write_field_def assign_def writes_at_def step_writes_def top_of_def update_conv'
          stamp_less_def)
next
  case (Some r0)
  have in1: "(reg_stamp r0, reg_value r0) \<in> writes_at (ch_path c) d (c # cs)"
    using Some by (simp add: writes_at_def)
  have in2: "(ch_stamp c, ch_value c) \<in> writes_at (ch_path c) d (c # cs)"
    by (auto simp: writes_at_def)
  have v: "reg_value r0 = ch_value c" if "reg_stamp r0 = ch_stamp c"
    using assms in1 in2 that unfolding consistent_at_def by fastforce
  consider (newer) "stamp_less (reg_stamp r0) (ch_stamp c)"
    | (older) "stamp_less (ch_stamp c) (reg_stamp r0)"
    | (same) "reg_stamp r0 = ch_stamp c"
    using stamp_less_total [of "reg_stamp r0" "ch_stamp c"] by blast
  then show ?thesis
  proof cases
    case newer
    then show ?thesis
      using Some
      by (auto simp: write_field_def assign_def writes_at_def step_writes_def top_of_def update_conv'
            dest: stamp_less_ge)
  next
    case older
    then show ?thesis
      using Some
      by (auto simp: write_field_def assign_def writes_at_def step_writes_def top_of_def update_conv'
            dest: stamp_less_ge)
  next
    case same
    then show ?thesis
      using Some v
      by (auto simp: write_field_def assign_def writes_at_def step_writes_def top_of_def update_conv'
            dest: stamp_less_ge)
  qed
qed

lemma writes_at_Cons:
  "writes_at p d (c # cs) = step_writes p d c \<union> changes_at p cs"
  by (auto simp: writes_at_def step_writes_def changes_at_def)

lemma consistent_at_mono: "W \<subseteq> W' \<Longrightarrow> consistent_at W' \<Longrightarrow> consistent_at W"
  unfolding consistent_at_def by blast

lemma top_of_step:
  assumes "top_of W1 (Some r1)" and "top_of (insert (reg_stamp r1, reg_value r1) W2) R"
  shows "top_of (W1 \<union> W2) R"
proof (cases R)
  case None
  with assms(2) show ?thesis by (simp add: top_of_def)
next
  case (Some r')
  from assms(1) have m1: "(reg_stamp r1, reg_value r1) \<in> W1"
    and g1: "\<forall>x \<in> W1. \<not> stamp_less (reg_stamp r1) (fst x)"
    by (auto simp: top_of_def)
  from assms(2) Some have m2: "(reg_stamp r', reg_value r') \<in> insert (reg_stamp r1, reg_value r1) W2"
    and g2: "\<forall>x \<in> insert (reg_stamp r1, reg_value r1) W2. \<not> stamp_less (reg_stamp r') (fst x)"
    by (auto simp: top_of_def)
  from m2 m1 have mem: "(reg_stamp r', reg_value r') \<in> W1 \<union> W2" by auto
  have top: "\<not> stamp_less (reg_stamp r') (fst x)" if "x \<in> W1 \<union> W2" for x
  proof (cases "x \<in> W1")
    case True
    with g1 have a: "\<not> stamp_less (reg_stamp r1) (fst x)" by blast
    from g2 have b: "\<not> stamp_less (reg_stamp r') (reg_stamp r1)" by simp
    from stamp_ge_trans [OF b a] show ?thesis .
  next
    case False
    with that g2 show ?thesis by auto
  qed
  from mem top Some show ?thesis by (auto simp: top_of_def)
qed

lemma clock_top_unique: "clock_top S m \<Longrightarrow> clock_top S m' \<Longrightarrow> m = m'"
  unfolding clock_top_def by (meson order_antisym)

lemma clock_top_step:
  assumes "clock_top (clocks_at r (observe (snd (ch_stamp c)) (fst (ch_stamp c)) vc) cs) m"
  shows "clock_top (clocks_at r vc (c # cs)) m"
  using assms
  unfolding clock_top_def clocks_at_def vc_get_observe
  by (auto simp: max_def split: if_splits)

lemma apply_changes_ok:
  assumes "\<forall>p. consistent_at (writes_at p d cs)"
  shows "\<exists>d'. apply_changes cs d = Inr d' \<and> document_id d' = document_id d \<and>
           (\<forall>p. top_of (writes_at p d cs) (map_of (doc_fields d') p)) \<and>
           (\<forall>r. clock_top (clocks_at r (vclock d) cs) (vc_get (vclock d') r))"
  using assms
proof (induction cs arbitrary: d)
  case Nil
  show ?case
    by (auto simp: top_of_def writes_at_def clock_top_def clocks_at_def split: option.splits)
next
  case (Cons c cs)
  let ?q = "ch_path c"
  from Cons.prems have "consistent_at (writes_at ?q d (c # cs))" by blast
  from write_field_ok [OF this] obtain d1 where
    w: "write_field ?q (ch_value c) (ch_stamp c) (ch_origin c) d = Inr d1"
    and id1: "document_id d1 = document_id d"
    and other: "\<And>p. p \<noteq> ?q \<Longrightarrow> map_of (doc_fields d1) p = map_of (doc_fields d) p"
    and top1: "top_of (step_writes ?q d c) (map_of (doc_fields d1) ?q)"
    and vc1: "vclock d1 = observe (snd (ch_stamp c)) (fst (ch_stamp c)) (vclock d)"
    by blast
  have nonempty: "step_writes ?q d c \<noteq> {}" by (auto simp: writes_at_def step_writes_def)
  with top1 obtain r1 where r1: "map_of (doc_fields d1) ?q = Some r1"
    by (cases "map_of (doc_fields d1) ?q") (auto simp: top_of_def)
  have w1_q: "writes_at ?q d1 cs = insert (reg_stamp r1, reg_value r1) (changes_at ?q cs)"
    using r1 by (auto simp: writes_at_def changes_at_def)
  have w1_other: "writes_at p d1 cs = writes_at p d (c # cs)" if "p \<noteq> ?q" for p
    using other [OF that] that by (auto simp: writes_at_def)
  have sub: "writes_at p d1 cs \<subseteq> writes_at p d (c # cs)" for p
  proof (cases "p = ?q")
    case True
    from top1 r1 have "(reg_stamp r1, reg_value r1) \<in> step_writes ?q d c"
      by (simp add: top_of_def)
    then show ?thesis unfolding True w1_q writes_at_Cons by auto
  next
    case False
    then show ?thesis by (simp add: w1_other)
  qed
  have "\<forall>p. consistent_at (writes_at p d1 cs)"
    using Cons.prems sub consistent_at_mono by blast
  from Cons.IH [OF this] obtain d' where
    a: "apply_changes cs d1 = Inr d'" and i: "document_id d' = document_id d1"
    and t: "\<And>p. top_of (writes_at p d1 cs) (map_of (doc_fields d') p)"
    and k: "\<And>r. clock_top (clocks_at r (vclock d1) cs) (vc_get (vclock d') r)"
    by blast
  have t': "top_of (writes_at p d (c # cs)) (map_of (doc_fields d') p)" for p
  proof (cases "p = ?q")
    case True
    have "top_of (step_writes ?q d c \<union> changes_at ?q cs) (map_of (doc_fields d') ?q)"
      using top_of_step [OF top1 [unfolded r1]] t [of ?q] unfolding w1_q by blast
    then show ?thesis unfolding True writes_at_Cons .
  next
    case False
    then show ?thesis using t [of p] by (simp add: w1_other)
  qed
  have k': "clock_top (clocks_at r (vclock d) (c # cs)) (vc_get (vclock d') r)" for r
    using k [of r] unfolding vc1 by (rule clock_top_step)
  from w a i id1 t' k' show ?case by auto
qed

lemma apply_changes_append:
  "apply_changes (xs @ ys) d =
     (case apply_changes xs d of Inl f \<Rightarrow> Inl f | Inr d1 \<Rightarrow> apply_changes ys d1)"
  by (induction xs arbitrary: d) (auto split: sum.splits)

lemma apply_deltas_two:
  "apply_deltas [a, b] d = apply_changes (changes a @ changes b) d"
  by (simp add: apply_delta_def apply_changes_append split: sum.splits)

lemma stamps_unique_consistent:
  assumes "stamps_unique (document_writes d @ map (\<lambda>c. (ch_path c, ch_stamp c, ch_value c)) cs)"
  shows "consistent_at (writes_at p d cs)"
proof -
  let ?ws = "document_writes d @ map (\<lambda>c. (ch_path c, ch_stamp c, ch_value c)) cs"
  have mem: "(p, fst x, snd x) \<in> set ?ws" if "x \<in> writes_at p d cs" for x
  proof -
    from that consider
      (reg) r where "map_of (doc_fields d) p = Some r" "x = (reg_stamp r, reg_value r)"
      | (chg) c where "c \<in> set cs" "ch_path c = p" "x = (ch_stamp c, ch_value c)"
      by (auto simp: writes_at_def split: option.splits)
    then show ?thesis
    proof cases
      case reg
      from map_of_SomeD [OF reg(1)] have "(p, reg_stamp r, reg_value r) \<in> set (document_writes d)"
        by (force simp: document_writes_def)
      with reg(2) show ?thesis by simp
    next
      case chg
      then show ?thesis by force
    qed
  qed
  from assms have u: "\<forall>x \<in> set ?ws. \<forall>y \<in> set ?ws.
      fst x = fst y \<and> fst (snd x) = fst (snd y) \<longrightarrow> snd (snd x) = snd (snd y)"
    unfolding stamps_unique_def list_all_iff by blast
  show ?thesis
    unfolding consistent_at_def
  proof (intro ballI impI)
    fix x y assume "x \<in> writes_at p d cs" "y \<in> writes_at p d cs" "fst x = fst y"
    with u mem [of x] mem [of y] show "snd x = snd y" by fastforce
  qed
qed

text \<open>
  C4 (as amended). When the writes of a document and of two deltas follow the discipline of
  stamps (two writes of one path with the same stamp carry the same value), applying the
  deltas in either order returns a document, and the two documents have the same id, at
  every path the same value and stamp (or no register on both sides), and the same vector
  clock entry for every replica.
\<close>

theorem apply_delta_commutes:
  assumes "stamps_unique (document_writes d @ delta_writes dl1 @ delta_writes dl2)"
  shows "\<exists>d12 d21.
           apply_deltas [dl1, dl2] d = Inr d12 \<and> apply_deltas [dl2, dl1] d = Inr d21 \<and>
           document_id d12 = document_id d21 \<and>
           (\<forall>p. map_option (\<lambda>r. (reg_value r, reg_stamp r)) (map_of (doc_fields d12) p) =
                map_option (\<lambda>r. (reg_value r, reg_stamp r)) (map_of (doc_fields d21) p)) \<and>
           (\<forall>r. vc_get (vclock d12) r = vc_get (vclock d21) r)"
proof -
  let ?w = "\<lambda>c. (ch_path c, ch_stamp c, ch_value c)"
  let ?a = "changes dl1 @ changes dl2" and ?b = "changes dl2 @ changes dl1"
  have ua: "stamps_unique (document_writes d @ map ?w ?a)"
    using assms by (simp add: delta_writes_def)
  have ub: "stamps_unique (document_writes d @ map ?w ?b)"
    using assms unfolding stamps_unique_def list_all_iff delta_writes_def by auto
  have ca: "\<forall>p. consistent_at (writes_at p d ?a)"
    using stamps_unique_consistent [OF ua] by blast
  have cb: "\<forall>p. consistent_at (writes_at p d ?b)"
    using stamps_unique_consistent [OF ub] by blast
  from apply_changes_ok [OF ca] obtain d12 where
    a1: "apply_changes ?a d = Inr d12" and a2: "document_id d12 = document_id d"
    and a3: "\<And>p. top_of (writes_at p d ?a) (map_of (doc_fields d12) p)"
    and a4: "\<And>r. clock_top (clocks_at r (vclock d) ?a) (vc_get (vclock d12) r)"
    by blast
  from apply_changes_ok [OF cb] obtain d21 where
    b1: "apply_changes ?b d = Inr d21" and b2: "document_id d21 = document_id d"
    and b3: "\<And>p. top_of (writes_at p d ?b) (map_of (doc_fields d21) p)"
    and b4: "\<And>r. clock_top (clocks_at r (vclock d) ?b) (vc_get (vclock d21) r)"
    by blast
  have weq: "writes_at p d ?b = writes_at p d ?a" for p
    by (auto simp: writes_at_def)
  have keq: "clocks_at r (vclock d) ?b = clocks_at r (vclock d) ?a" for r
    by (auto simp: clocks_at_def)
  have f: "map_option (\<lambda>r. (reg_value r, reg_stamp r)) (map_of (doc_fields d12) p) =
           map_option (\<lambda>r. (reg_value r, reg_stamp r)) (map_of (doc_fields d21) p)" for p
    using top_of_unique [OF ca [rule_format, of p] a3 [of p] b3 [of p, unfolded weq]] .
  have k: "vc_get (vclock d12) r = vc_get (vclock d21) r" for r
    using clock_top_unique [OF a4 [of r] b4 [of r, unfolded keq]] .
  show ?thesis
    unfolding apply_deltas_two using a1 b1 a2 b2 f k by auto
qed

text \<open>
  C4 as stated fails. The first delta writes \<open>title\<close> with the stamps \<open>(1, A)\<close> and
  \<open>(2, A)\<close>, the second writes another value with the stamp \<open>(1, A)\<close>. Applied after
  the first, the second is discarded as older and a document results; applied before it,
  the first delta meets an equal stamp with an unequal value, which is a fault.
\<close>

theorem apply_delta_commutes_counterexample:
  "(\<exists>d'. apply_deltas
      [\<lparr>delta_document_id = ''d'',
        changes = [\<lparr>ch_path = ''title'', ch_value = 1 :: nat, ch_stamp = (1, ''A''), ch_origin = ''A''\<rparr>,
                   \<lparr>ch_path = ''title'', ch_value = 3, ch_stamp = (2, ''A''), ch_origin = ''A''\<rparr>]\<rparr>,
       \<lparr>delta_document_id = ''d'',
        changes = [\<lparr>ch_path = ''title'', ch_value = 2, ch_stamp = (1, ''A''), ch_origin = ''A''\<rparr>]\<rparr>]
      (new_document ''d'') = Inr d') \<and>
   apply_deltas
      [\<lparr>delta_document_id = ''d'',
        changes = [\<lparr>ch_path = ''title'', ch_value = 2 :: nat, ch_stamp = (1, ''A''), ch_origin = ''A''\<rparr>]\<rparr>,
       \<lparr>delta_document_id = ''d'',
        changes = [\<lparr>ch_path = ''title'', ch_value = 1, ch_stamp = (1, ''A''), ch_origin = ''A''\<rparr>,
                   \<lparr>ch_path = ''title'', ch_value = 3, ch_stamp = (2, ''A''), ch_origin = ''A''\<rparr>]\<rparr>]
      (new_document ''d'') = Inl InvariantViolation"
  by (simp add: apply_delta_def write_field_def assign_def new_document_def stamp_less_def
        observe_def vc_get_def)

theorem apply_delta_commutes_witness:
  "stamps_unique
     (document_writes (new_document ''d'' :: string document) @
      delta_writes \<lparr>delta_document_id = ''d'',
        changes = [\<lparr>ch_path = ''title'', ch_value = ''x'', ch_stamp = (1, ''A''), ch_origin = ''A''\<rparr>]\<rparr> @
      delta_writes \<lparr>delta_document_id = ''d'',
        changes = [\<lparr>ch_path = ''title'', ch_value = ''y'', ch_stamp = (1, ''B''), ch_origin = ''B''\<rparr>]\<rparr>) \<and>
   (\<exists>d12 d21.
      apply_deltas
        [\<lparr>delta_document_id = ''d'',
          changes = [\<lparr>ch_path = ''title'', ch_value = ''x'', ch_stamp = (1, ''A''), ch_origin = ''A''\<rparr>]\<rparr>,
         \<lparr>delta_document_id = ''d'',
          changes = [\<lparr>ch_path = ''title'', ch_value = ''y'', ch_stamp = (1, ''B''), ch_origin = ''B''\<rparr>]\<rparr>]
        (new_document ''d'') = Inr d12 \<and>
      apply_deltas
        [\<lparr>delta_document_id = ''d'',
          changes = [\<lparr>ch_path = ''title'', ch_value = ''y'', ch_stamp = (1, ''B''), ch_origin = ''B''\<rparr>]\<rparr>,
         \<lparr>delta_document_id = ''d'',
          changes = [\<lparr>ch_path = ''title'', ch_value = ''x'', ch_stamp = (1, ''A''), ch_origin = ''A''\<rparr>]\<rparr>]
        (new_document ''d'') = Inr d21 \<and>
      map_option reg_value (map_of (doc_fields d12) ''title'') = Some ''y'' \<and>
      map_option reg_value (map_of (doc_fields d21) ''title'') = Some ''y'')"
  using apply_delta_commutes
    [where d = "new_document ''d'' :: string document"
       and ?dl1.0 = "\<lparr>delta_document_id = ''d'',
          changes = [\<lparr>ch_path = ''title'', ch_value = ''x'', ch_stamp = (1, ''A''), ch_origin = ''A''\<rparr>]\<rparr>"
       and ?dl2.0 = "\<lparr>delta_document_id = ''d'',
          changes = [\<lparr>ch_path = ''title'', ch_value = ''y'', ch_stamp = (1, ''B''), ch_origin = ''B''\<rparr>]\<rparr>"]
  by (simp add: apply_delta_def write_field_def assign_def new_document_def stamp_less_def
        observe_def vc_get_def stamps_unique_def document_writes_def delta_writes_def)

end
